theory Spec2Isabelle
  imports Complex_Main "HOL-Library.Word" "HOL-Library.Multiset"
begin

section \<open>Values shared by the whole program\<close>

text \<open>
  The status codes of \<^verbatim>\<open>Thumbnailer::Status\<close> (thumbnailer.h). An \<open>Outcome\<close> is what a
  call does: it returns a status, or it runs into behaviour that C++ leaves undefined (a read
  outside a vector, a division of integers by zero, a \<^verbatim>\<open>std::sort\<close> whose comparison is not a
  strict weak order). Nothing is promised about an \<open>Undefined\<close> call.
\<close>

datatype Status = kOk | kMemoryError | kImageFormatError | kByteBudgetError | kStatsError

datatype Outcome = Returns Status | Undefined

abbreviation ok :: Outcome where
  "ok \<equiv> Returns kOk"

text \<open>
  A call with an output parameter: \<open>Val v\<close> when it returned \<^verbatim>\<open>kOk\<close> and wrote \<open>v\<close>, \<open>Stop o\<close>
  when it ended otherwise. \<^verbatim>\<open>CHECK_THUMBNAILER_STATUS\<close> makes the caller return \<open>o\<close> at once.
\<close>

datatype 'a Res = Val 'a | Stop Outcome

text \<open>
  A C++ \<^verbatim>\<open>float\<close> that is the result of an operation: a finite value, an infinity or NaN.
  PSNR values, which come from the codec, are finite floats and modelled as reals. The
  rounding of the machine is a function \<open>rnd\<close> from the exact result of an operation to the
  float that the operation returns (an infinity when the result is too large); it is a
  parameter of the model, \<open>FloatRound\<close> below. The two zeros of the floats are not told apart.
\<close>

datatype cfloat = Fin real | PInf | NInf | NaN

text \<open>
  \<^verbatim>\<open>x / y\<close> on floats. The divisors of the program are converted integers, whose zero is \<open>+0\<close>:
  a finite \<open>x\<close> divided by zero is NaN when \<open>x\<close> is zero and an infinity of the sign of \<open>x\<close>
  otherwise.
\<close>

fun float_quot :: "(real \<Rightarrow> cfloat) \<Rightarrow> cfloat \<Rightarrow> cfloat \<Rightarrow> cfloat" where
  "float_quot rnd NaN y = NaN"
| "float_quot rnd x NaN = NaN"
| "float_quot rnd (Fin a) (Fin b) =
     (if b = 0 then (if a = 0 then NaN else if 0 < a then PInf else NInf) else rnd (a / b))"
| "float_quot rnd (Fin a) y = Fin 0"
| "float_quot rnd x (Fin b) = (if b < 0 then (if x = PInf then NInf else PInf) else x)"
| "float_quot rnd x y = NaN"

text \<open>\<^verbatim>\<open>x < y\<close> on floats: false as soon as one side is NaN.\<close>

fun float_less :: "cfloat \<Rightarrow> cfloat \<Rightarrow> bool" where
  "float_less NaN _ = False"
| "float_less _ NaN = False"
| "float_less (Fin a) (Fin b) = (a < b)"
| "float_less NInf NInf = False"
| "float_less NInf _ = True"
| "float_less _ NInf = False"
| "float_less PInf _ = False"
| "float_less _ PInf = True"

text \<open>\<^verbatim>\<open>x <= y\<close> on floats: false as soon as one side is NaN.\<close>

definition float_le :: "cfloat \<Rightarrow> cfloat \<Rightarrow> bool" where
  "float_le x y = (x \<noteq> NaN \<and> y \<noteq> NaN \<and> \<not> float_less y x)"

text \<open>
  The precondition of \<^verbatim>\<open>std::sort\<close> on floats compared by \<^verbatim>\<open><\<close>: the comparison is a strict
  weak order on the values. It is one unless a NaN, which compares false with everything,
  occurs together with two values of which one is less than the other.
\<close>

definition float_sortable :: "cfloat list \<Rightarrow> bool" where
  "float_sortable xs = (NaN \<in> set xs \<longrightarrow> (\<forall>a \<in> set xs. \<forall>b \<in> set xs. \<not> float_less a b))"

text \<open>Integer division of C++: the quotient is truncated towards zero.\<close>

definition c_div :: "int \<Rightarrow> int \<Rightarrow> int" where
  "c_div a b = sgn a * sgn b * (\<bar>a\<bar> div \<bar>b\<bar>)"

text \<open>
  \<^verbatim>\<open>WebPData\<close>: a byte buffer; its \<^verbatim>\<open>size\<close> field is the length of the buffer.
\<close>

record WebPData =
  bytes :: "8 word list"

definition data_size :: "WebPData \<Rightarrow> nat" where
  "data_size d = length (bytes d)"

text \<open>\<^verbatim>\<open>WebPDataInit\<close>: the empty buffer.\<close>

definition WebPDataInit :: WebPData where
  "WebPDataInit = \<lparr>bytes = []\<rparr>"

text \<open>
  \<^verbatim>\<open>new_webp_data.size <= byte_budget_\<close> compares a \<^verbatim>\<open>size_t\<close> with an \<^verbatim>\<open>int\<close>: the budget is
  converted to \<^verbatim>\<open>size_t\<close>, so a negative budget becomes a value above every buffer size.
\<close>

definition size_le_budget :: "nat \<Rightarrow> int \<Rightarrow> bool" where
  "size_le_budget sz b = (b < 0 \<or> int sz \<le> b)"

text \<open>
  \<^verbatim>\<open>int curr_anim_size = webp_data->size\<close> narrows a \<^verbatim>\<open>size_t\<close> (64 bits) to an \<^verbatim>\<open>int\<close>
  (32 bits): the low 32 bits, read as a signed number. \<^verbatim>\<open>curr_anim_size == webp_data->size\<close>
  converts the \<^verbatim>\<open>int\<close> back to \<^verbatim>\<open>size_t\<close> for the comparison.
\<close>

definition size_to_int :: "nat \<Rightarrow> int" where
  "size_to_int sz = sint (word_of_nat sz :: 32 word)"

definition int_eq_size :: "int \<Rightarrow> nat \<Rightarrow> bool" where
  "int_eq_size i sz = ((word_of_int i :: 64 word) = word_of_nat sz)"

section \<open>The data model (thumbnailer.h, as thumbnailer\_slope\_optim.cc uses it)\<close>

text \<open>
  Of \<^verbatim>\<open>WebPConfig\<close> the program reads and writes \<^verbatim>\<open>quality\<close> (a float that only ever holds the
  integers the program assigns) and \<^verbatim>\<open>lossless\<close> (an int tested for zero).
\<close>

record WebPConfig =
  quality :: int
  lossless :: bool

text \<open>
  \<^verbatim>\<open>FrameData\<close>. \<open>lossy_data\<close> is the array of 101 (size, PSNR) pairs indexed by the quality
  0..100; the model reads and writes it at these indices only. An entry \<open>(-1, -1.0)\<close> is
  one not computed yet.
\<close>

record 'pic FrameData =
  pic :: 'pic
  timestamp_ms :: int
  config :: WebPConfig
  encoded_size :: int
  final_quality :: int
  final_psnr :: real
  near_lossless :: bool
  lossy_data :: "int \<Rightarrow> int \<times> real"

text \<open>The fields of \<^verbatim>\<open>Thumbnailer\<close> that the passes use.\<close>

record 'pic Thumbnailer =
  frames :: "'pic FrameData list"
  byte_budget :: int
  minimum_lossy_quality :: int

text \<open>
  What is outside the three source files: the codec (encode one picture with a config and
  measure it), the animation encoder (encode and assemble the frames at their configs),
  \<^verbatim>\<open>GetAnimationSize\<close>, the \<^verbatim>\<open>std::sort\<close> calls, whose order among equivalent keys the
  library chooses, the passes \<^verbatim>\<open>NearLosslessEqual\<close> and \<^verbatim>\<open>GenerateAnimationEqualQuality\<close>,
  and the rounding of the float arithmetic. They are parameters of the model.
\<close>

record 'pic External =
  EncodeMeasure :: "'pic \<Rightarrow> WebPConfig \<Rightarrow> (int \<times> real) option"
  AnimEncoderAssemble :: "('pic \<times> int \<times> WebPConfig) list \<Rightarrow> WebPData option"
  GetAnimationSize :: "WebPData \<Rightarrow> int"
  SortFrames :: "'pic FrameData list \<Rightarrow> 'pic FrameData list"
  SortEncodingOrder :: "(cfloat \<times> nat) list \<Rightarrow> (cfloat \<times> nat) list"
  SortSlopes :: "cfloat list \<Rightarrow> cfloat list"
  FloatRound :: "real \<Rightarrow> cfloat"
  NearLosslessEqual ::
    "'pic Thumbnailer \<Rightarrow> WebPData \<Rightarrow> Outcome \<times> 'pic Thumbnailer \<times> WebPData"
  GenerateAnimationEqualQuality ::
    "'pic Thumbnailer \<Rightarrow> WebPData \<Rightarrow> Outcome \<times> 'pic Thumbnailer \<times> WebPData"

text \<open>
  The float operations of the program: \<^verbatim>\<open>a - b\<close> on two PSNR values, \<^verbatim>\<open>float(n)\<close> on an
  \<^verbatim>\<open>int\<close>, and \<^verbatim>\<open>x / y\<close>. Each returns the rounded exact result.
\<close>

definition float_sub :: "'pic External \<Rightarrow> real \<Rightarrow> real \<Rightarrow> cfloat" where
  "float_sub ext a b = FloatRound ext (a - b)"

definition int_to_float :: "'pic External \<Rightarrow> int \<Rightarrow> cfloat" where
  "int_to_float ext n = FloatRound ext (real_of_int n)"

definition float_div :: "'pic External \<Rightarrow> cfloat \<Rightarrow> cfloat \<Rightarrow> cfloat" where
  "float_div ext x y = float_quot (FloatRound ext) x y"

definition set_quality :: "int \<Rightarrow> 'pic FrameData \<Rightarrow> 'pic FrameData" where
  "set_quality q frame = frame\<lparr>config := (config frame)\<lparr>quality := q\<rparr>\<rparr>"

text \<open>
  Modelled from the spec: \<^verbatim>\<open>GetPictureStats(int ind, int*, float*)\<close>, the cached statistics of
  frame \<open>ind\<close> at its current config, is not in the source files. Section 4.1 of the
  specification: it checks the frame's cache table first; on a miss it invokes the codec's
  encode-and-measure primitive, stores the result and returns it; it propagates a stats error
  if the codec fails. The argument is the frame \<^verbatim>\<open>frames_[ind]\<close>. A quality outside 0..100 has
  no slot in the table: the codec is asked and nothing is stored.
\<close>

definition GetPictureStats ::
  "'pic External \<Rightarrow> 'pic FrameData \<Rightarrow> (int \<times> real) Res \<times> 'pic FrameData" where
  "GetPictureStats ext frame =
     (let q = quality (config frame) in
      if 0 \<le> q \<and> q \<le> 100 \<and> lossy_data frame q \<noteq> (-1, -1)
      then (Val (lossy_data frame q), frame)
      else
        (case EncodeMeasure ext (pic frame) (config frame) of
           None \<Rightarrow> (Stop (Returns kStatsError), frame)
         | Some r \<Rightarrow>
             (Val r,
              if 0 \<le> q \<and> q \<le> 100
              then frame\<lparr>lossy_data := (lossy_data frame)(q := r)\<rparr>
              else frame)))"

text \<open>
  Modelled from the spec: \<^verbatim>\<open>GenerateAnimationNoBudget\<close> is not in the source files. Section
  4.7: it drives the codec and container builder once, encoding every frame at its current
  config in timestamp order, and returns the byte buffer; it does not consult the budget.
\<close>

definition GenerateAnimationNoBudget ::
  "'pic External \<Rightarrow> 'pic Thumbnailer \<Rightarrow> WebPData Res" where
  "GenerateAnimationNoBudget ext st =
     (case AnimEncoderAssemble ext
             (map (\<lambda>frame. (pic frame, timestamp_ms frame, config frame)) (frames st)) of
        None \<Rightarrow> Stop (Returns kMemoryError)
      | Some d \<Rightarrow> Val d)"

section \<open>thumbnailer\_slope\_optim.cc\<close>

subsection \<open>ComputeSlope\<close>

text \<open>\<^verbatim>\<open>ComputeSlope(ind, low_quality, high_quality, &slope)\<close>, on the frame \<^verbatim>\<open>frames_[ind]\<close>.\<close>

definition ComputeSlope ::
  "'pic External \<Rightarrow> int \<Rightarrow> int \<Rightarrow> 'pic FrameData \<Rightarrow> cfloat Res \<times> 'pic FrameData" where
  "ComputeSlope ext low_quality high_quality frame =
     (case GetPictureStats ext (set_quality low_quality frame) of
        (Stop e, frame1) \<Rightarrow> (Stop e, frame1)
      | (Val (low_size, low_psnr), frame1) \<Rightarrow>
          (case GetPictureStats ext (set_quality high_quality frame1) of
             (Stop e, frame2) \<Rightarrow> (Stop e, frame2)
           | (Val (high_size, high_psnr), frame2) \<Rightarrow>
               (Val (if high_size = low_size then Fin 0
                     else float_div ext (float_sub ext high_psnr low_psnr)
                            (int_to_float ext (high_size - low_size))),
                frame2)))"

subsection \<open>FindMedianSlope\<close>

lemma c_div_mid: "a \<le> b \<Longrightarrow> a \<le> c_div (a + b) 2 \<and> c_div (a + b) 2 \<le> b"
  unfolding c_div_def by (cases "a + b < 0") (auto simp: sgn_if abs_if)

text \<open>
  The \<^verbatim>\<open>while (min_quality <= max_quality)\<close> loop of \<^verbatim>\<open>FindMedianSlope\<close>, for one frame.
  \<open>pic_final_slope\<close> is \<open>None\<close> while the variable has not been assigned.
\<close>

function threshold_search ::
  "'pic External \<Rightarrow> real \<Rightarrow> int \<Rightarrow> int \<Rightarrow> int \<Rightarrow> cfloat option \<Rightarrow> 'pic FrameData
     \<Rightarrow> Outcome \<times> cfloat option \<times> 'pic FrameData" where
  "threshold_search ext psnr_100 size_100 min_quality max_quality pic_final_slope frame =
     (if min_quality \<le> max_quality then
        (let mid_quality = c_div (min_quality + max_quality) 2 in
         case GetPictureStats ext (set_quality mid_quality frame) of
           (Stop e, frame1) \<Rightarrow> (e, pic_final_slope, frame1)
         | (Val (new_size, new_psnr), frame1) \<Rightarrow>
             if float_le (float_sub ext psnr_100 new_psnr) (Fin 1) then
               threshold_search ext psnr_100 size_100 min_quality (mid_quality - 1)
                 (Some (float_div ext (float_sub ext psnr_100 new_psnr)
                          (int_to_float ext (size_100 - new_size))))
                 frame1
             else
               threshold_search ext psnr_100 size_100 (mid_quality + 1) max_quality
                 pic_final_slope frame1)
      else (ok, pic_final_slope, frame))"
  by pat_completeness auto
termination
  by (relation "measure (\<lambda>(ext, p, s, lo, hi, sl, f). nat (hi - lo + 1))")
     (use c_div_mid in \<open>auto simp: nat_less_iff\<close>)

text \<open>The body of the \<^verbatim>\<open>for (auto& frame : frames_)\<close> loop, up to the \<^verbatim>\<open>push_back\<close>.\<close>

definition frame_slope ::
  "'pic External \<Rightarrow> 'pic FrameData \<Rightarrow> Outcome \<times> cfloat option \<times> 'pic FrameData" where
  "frame_slope ext frame =
     (case GetPictureStats ext (set_quality 100 frame) of
        (Stop e, frame1) \<Rightarrow> (e, None, frame1)
      | (Val (size_100, psnr_100), frame1) \<Rightarrow>
          threshold_search ext psnr_100 size_100 0 100 None frame1)"

text \<open>
  The loop over the frames. Pushing a \<open>pic_final_slope\<close> that was never assigned reads an
  uninitialised variable.
\<close>

fun collect_slopes ::
  "'pic External \<Rightarrow> 'pic FrameData list \<Rightarrow> cfloat list
     \<Rightarrow> Outcome \<times> cfloat list \<times> 'pic FrameData list" where
  "collect_slopes ext [] slopes = (ok, slopes, [])"
| "collect_slopes ext (frame # rest) slopes =
     (case frame_slope ext frame of
        (Returns kOk, Some s, frame1) \<Rightarrow>
          (case collect_slopes ext rest (slopes @ [s]) of
             (r, slopes1, rest1) \<Rightarrow> (r, slopes1, frame1 # rest1))
      | (Returns kOk, None, frame1) \<Rightarrow> (Undefined, slopes, frame1 # rest)
      | (e, _, frame1) \<Rightarrow> (e, slopes, frame1 # rest))"

text \<open>
  \<^verbatim>\<open>FindMedianSlope\<close>. With no frame, \<^verbatim>\<open>slopes[0]\<close> reads outside the vector; when \<^verbatim>\<open><\<close> is not a
  strict weak order on the slopes, \<^verbatim>\<open>std::sort\<close> is undefined.
\<close>

definition FindMedianSlope ::
  "'pic External \<Rightarrow> 'pic Thumbnailer \<Rightarrow> cfloat Res \<times> 'pic Thumbnailer" where
  "FindMedianSlope ext st =
     (case collect_slopes ext (frames st) [] of
        (Returns kOk, slopes, frames1) \<Rightarrow>
          (if slopes = [] \<or> \<not> float_sortable slopes
           then (Stop Undefined, st\<lparr>frames := frames1\<rparr>)
           else (Val (SortSlopes ext slopes ! (length slopes div 2)), st\<lparr>frames := frames1\<rparr>))
      | (e, slopes, frames1) \<Rightarrow> (Stop e, st\<lparr>frames := frames1\<rparr>))"

subsection \<open>LossyEncodeSlopeOptim\<close>

text \<open>
  The \<^verbatim>\<open>for (int curr_frame : optim_list)\<close> loop of one round: it builds \<open>new_optim_list\<close>.
\<close>

fun select_active ::
  "'pic External \<Rightarrow> int \<Rightarrow> int \<Rightarrow> int \<Rightarrow> cfloat \<Rightarrow> nat list \<Rightarrow> 'pic FrameData list \<Rightarrow> nat list
     \<Rightarrow> Outcome \<times> 'pic FrameData list \<times> nat list" where
  "select_active ext min_quality max_quality mid_quality limit_slope [] fs new_optim_list =
     (ok, fs, new_optim_list)"
| "select_active ext min_quality max_quality mid_quality limit_slope (curr_frame # rest) fs
       new_optim_list =
     (case ComputeSlope ext min_quality max_quality (fs ! curr_frame) of
        (Stop e, frame1) \<Rightarrow> (e, fs[curr_frame := frame1], new_optim_list)
      | (Val curr_slope, frame1) \<Rightarrow>
          if final_quality frame1 = -1 \<or> float_less limit_slope curr_slope then
            select_active ext min_quality max_quality mid_quality limit_slope rest
              (fs[curr_frame := set_quality mid_quality frame1]) (new_optim_list @ [curr_frame])
          else
            select_active ext min_quality max_quality mid_quality limit_slope rest
              (fs[curr_frame := frame1]) new_optim_list)"

text \<open>\<^verbatim>\<open>for (int curr_frame : new_optim_list) frames_[curr_frame].final_quality = mid_quality;\<close>\<close>

definition commit_quality ::
  "int \<Rightarrow> nat list \<Rightarrow> 'pic FrameData list \<Rightarrow> 'pic FrameData list" where
  "commit_quality mid_quality new_optim_list fs =
     fold (\<lambda>curr_frame fs1. fs1[curr_frame := (fs1 ! curr_frame)\<lparr>final_quality := mid_quality\<rparr>])
       new_optim_list fs"

text \<open>
  The global binary search, \<^verbatim>\<open>while (min_quality <= max_quality && !optim_list.empty())\<close>.
  The outcome is \<open>ok\<close> when the loop is left by its condition or by \<^verbatim>\<open>break\<close>.
\<close>

function slope_optim_loop ::
  "'pic External \<Rightarrow> cfloat \<Rightarrow> int \<Rightarrow> int \<Rightarrow> nat list \<Rightarrow> 'pic Thumbnailer \<Rightarrow> WebPData
     \<Rightarrow> Outcome \<times> 'pic Thumbnailer \<times> WebPData" where
  "slope_optim_loop ext limit_slope min_quality max_quality optim_list st webp_data =
     (if min_quality \<le> max_quality \<and> optim_list \<noteq> [] then
        (let mid_quality = c_div (min_quality + max_quality) 2 in
         case select_active ext min_quality max_quality mid_quality limit_slope optim_list
                (frames st) [] of
           (Returns kOk, fs, new_optim_list) \<Rightarrow>
             if new_optim_list = [] then (ok, st\<lparr>frames := fs\<rparr>, webp_data)
             else
               (case GenerateAnimationNoBudget ext (st\<lparr>frames := fs\<rparr>) of
                  Stop e \<Rightarrow> (e, st\<lparr>frames := fs\<rparr>, webp_data)
                | Val new_webp_data \<Rightarrow>
                    if size_le_budget (data_size new_webp_data) (byte_budget st) then
                      slope_optim_loop ext limit_slope (mid_quality + 1) max_quality
                        new_optim_list
                        (st\<lparr>frames := commit_quality mid_quality new_optim_list fs\<rparr>)
                        new_webp_data
                    else
                      slope_optim_loop ext limit_slope min_quality (mid_quality - 1)
                        new_optim_list (st\<lparr>frames := fs\<rparr>) webp_data)
         | (e, fs, new_optim_list) \<Rightarrow> (e, st\<lparr>frames := fs\<rparr>, webp_data))
      else (ok, st, webp_data))"
  by pat_completeness auto
termination
  by (relation "measure (\<lambda>(ext, l, lo, hi, ol, st, wd). nat (hi - lo + 1))")
     (use c_div_mid in \<open>auto simp: nat_less_iff\<close>)

text \<open>
  The last loop: every frame's \<^verbatim>\<open>config.quality\<close> is set to its \<^verbatim>\<open>final_quality\<close> and its
  statistics are written to \<^verbatim>\<open>encoded_size\<close> and \<^verbatim>\<open>final_psnr\<close>.
\<close>

fun final_stats :: "'pic External \<Rightarrow> 'pic FrameData list \<Rightarrow> Outcome \<times> 'pic FrameData list" where
  "final_stats ext [] = (ok, [])"
| "final_stats ext (frame # rest) =
     (case GetPictureStats ext (set_quality (final_quality frame) frame) of
        (Stop e, frame1) \<Rightarrow> (e, frame1 # rest)
      | (Val (new_size, new_psnr), frame1) \<Rightarrow>
          (case final_stats ext rest of
             (r, rest1) \<Rightarrow> (r, frame1\<lparr>encoded_size := new_size, final_psnr := new_psnr\<rparr> # rest1)))"

definition LossyEncodeSlopeOptim ::
  "'pic External \<Rightarrow> 'pic Thumbnailer \<Rightarrow> WebPData
     \<Rightarrow> Outcome \<times> 'pic Thumbnailer \<times> WebPData" where
  "LossyEncodeSlopeOptim ext st webp_data =
     (let st0 = st\<lparr>frames := SortFrames ext (frames st)\<rparr> in
      case FindMedianSlope ext st0 of
        (Stop e, st1) \<Rightarrow> (e, st1, webp_data)
      | (Val limit_slope, st1) \<Rightarrow>
          (case slope_optim_loop ext limit_slope (minimum_lossy_quality st1) 100
                  [0..<length (frames st1)] st1 webp_data of
             (Returns kOk, st2, webp_data2) \<Rightarrow>
               (case final_stats ext (frames st2) of
                  (Returns kOk, fs) \<Rightarrow>
                    (if 0 < data_size webp_data2 then ok else Returns kByteBudgetError,
                     st2\<lparr>frames := fs\<rparr>, webp_data2)
                | (e, fs) \<Rightarrow> (e, st2\<lparr>frames := fs\<rparr>, webp_data2))
           | (e, st2, webp_data2) \<Rightarrow> (e, st2, webp_data2)))"

subsection \<open>LossyEncodeNoSlopeOptim\<close>

text \<open>
  The \<^verbatim>\<open>while (min_quality <= max_quality)\<close> loop for one frame. \<open>anim_size\<close> is the running
  animation size and \<open>num_remaining_frames\<close> the divisor of the slack.
\<close>

function noslope_search ::
  "'pic External \<Rightarrow> int \<Rightarrow> int \<Rightarrow> int \<Rightarrow> int \<Rightarrow> int \<Rightarrow> 'pic FrameData
     \<Rightarrow> Outcome \<times> int \<times> 'pic FrameData" where
  "noslope_search ext budget num_remaining_frames min_quality max_quality anim_size frame =
     (if min_quality \<le> max_quality then
        (let mid_quality = c_div (min_quality + max_quality) 2 in
         case GetPictureStats ext (set_quality mid_quality frame) of
           (Stop e, frame1) \<Rightarrow> (e, anim_size, frame1)
         | (Val (new_size, new_psnr), frame1) \<Rightarrow>
             if final_psnr frame1 < new_psnr \<or>
                (new_psnr = final_psnr frame1 \<and> new_size \<le> encoded_size frame1) then
               (if num_remaining_frames = 0 then (Undefined, anim_size, frame1)
                else
                  (let extra_budget =
                         int_to_float ext (c_div (budget - anim_size) num_remaining_frames) in
                   if float_le (int_to_float ext (new_size - encoded_size frame1)) extra_budget
                   then
                     noslope_search ext budget num_remaining_frames (mid_quality + 1) max_quality
                       (anim_size - encoded_size frame1 + new_size)
                       (frame1\<lparr>encoded_size := new_size, final_psnr := new_psnr,
                               final_quality := mid_quality, near_lossless := False\<rparr>)
                   else
                     noslope_search ext budget num_remaining_frames min_quality (mid_quality - 1)
                       anim_size frame1))
             else
               noslope_search ext budget num_remaining_frames (mid_quality + 1) max_quality
                 anim_size frame1)
      else (ok, anim_size, frame))"
  by pat_completeness auto
termination
  by (relation "measure (\<lambda>(ext, b, n, lo, hi, a, f). nat (hi - lo + 1))")
     (use c_div_mid in \<open>auto simp: nat_less_iff\<close>)

text \<open>The bounds with which the search of one frame starts.\<close>

definition noslope_min_quality :: "'pic FrameData \<Rightarrow> int" where
  "noslope_min_quality frame = (if lossless (config frame) then 70 else final_quality frame)"

definition noslope_max_quality :: "'pic FrameData \<Rightarrow> int" where
  "noslope_max_quality frame = min (noslope_min_quality frame + 30) 100"

text \<open>The scan \<^verbatim>\<open>for (auto& frame : frames_)\<close>, with \<^verbatim>\<open>num_remaining_frames--\<close> after each frame.\<close>

fun noslope_scan ::
  "'pic External \<Rightarrow> int \<Rightarrow> int \<Rightarrow> int \<Rightarrow> 'pic FrameData list
     \<Rightarrow> Outcome \<times> int \<times> 'pic FrameData list" where
  "noslope_scan ext budget num_remaining_frames anim_size [] = (ok, anim_size, [])"
| "noslope_scan ext budget num_remaining_frames anim_size (frame # rest) =
     (case noslope_search ext budget num_remaining_frames
             (noslope_min_quality frame) (noslope_max_quality frame) anim_size
             (frame\<lparr>config := (config frame)\<lparr>lossless := False\<rparr>\<rparr>) of
        (Returns kOk, anim_size1, frame1) \<Rightarrow>
          (case noslope_scan ext budget (num_remaining_frames - 1) anim_size1 rest of
             (r, anim_size2, rest1) \<Rightarrow> (r, anim_size2, frame1 # rest1))
      | (e, anim_size1, frame1) \<Rightarrow> (e, anim_size1, frame1 # rest))"

text \<open>The second loop: every frame's config is set from its final values.\<close>

definition restore_config :: "'pic FrameData \<Rightarrow> 'pic FrameData" where
  "restore_config frame =
     frame\<lparr>config := (config frame)\<lparr>quality := final_quality frame,
                                     lossless := near_lossless frame\<rparr>\<rparr>"

definition LossyEncodeNoSlopeOptim ::
  "'pic External \<Rightarrow> 'pic Thumbnailer \<Rightarrow> WebPData
     \<Rightarrow> Outcome \<times> 'pic Thumbnailer \<times> WebPData" where
  "LossyEncodeNoSlopeOptim ext st webp_data =
     (let anim_size = GetAnimationSize ext webp_data in
      if byte_budget st < anim_size then (ok, st, webp_data)
      else
        (case noslope_scan ext (byte_budget st) (int (length (frames st))) anim_size
                (frames st) of
           (Returns kOk, anim_size1, fs) \<Rightarrow>
             (let st1 = st\<lparr>frames := map restore_config fs\<rparr> in
              case GenerateAnimationNoBudget ext st1 of
                Stop e \<Rightarrow> (e, st1, webp_data)
              | Val new_webp_data \<Rightarrow>
                  if size_le_budget (data_size new_webp_data) (byte_budget st)
                  then (if 0 < data_size new_webp_data then ok else Returns kByteBudgetError,
                        st1, new_webp_data)
                  else (ok, st1, webp_data))
         | (e, anim_size1, fs) \<Rightarrow> (e, st\<lparr>frames := fs\<rparr>, webp_data)))"

subsection \<open>ExtraLossyEncode\<close>

text \<open>The first loop: the slope of every frame that is not near-lossless.\<close>

fun encoding_order_loop ::
  "'pic External \<Rightarrow> nat list \<Rightarrow> 'pic FrameData list \<Rightarrow> (cfloat \<times> nat) list
     \<Rightarrow> Outcome \<times> 'pic FrameData list \<times> (cfloat \<times> nat) list" where
  "encoding_order_loop ext [] fs encoding_order = (ok, fs, encoding_order)"
| "encoding_order_loop ext (i # rest) fs encoding_order =
     (if near_lossless (fs ! i) then encoding_order_loop ext rest fs encoding_order
      else
        (case ComputeSlope ext (final_quality (fs ! i)) 100 (fs ! i) of
           (Stop e, frame1) \<Rightarrow> (e, fs[i := frame1], encoding_order)
         | (Val slope, frame1) \<Rightarrow>
             encoding_order_loop ext rest (fs[i := frame1]) (encoding_order @ [(slope, i)])))"

text \<open>
  \<^verbatim>\<open>min_quality\<close> of a round: the least \<^verbatim>\<open>final_quality + 1\<close> of the remaining frames, at most
  100. \<open>order\<close> is the list of the frame indices of \<^verbatim>\<open>encoding_order\<close>, whose length
  \<^verbatim>\<open>num_remaining_frames\<close> always is.
\<close>

definition extra_min_quality :: "nat list \<Rightarrow> 'pic FrameData list \<Rightarrow> int" where
  "extra_min_quality order fs =
     fold (\<lambda>curr_ind min_quality. min min_quality (final_quality (fs ! curr_ind) + 1)) order 100"

text \<open>The trial of one candidate: the remaining frames get \<^verbatim>\<open>max(final_quality, mid_quality)\<close>.\<close>

definition extra_trial :: "int \<Rightarrow> nat list \<Rightarrow> 'pic FrameData list \<Rightarrow> 'pic FrameData list" where
  "extra_trial mid_quality order fs =
     fold (\<lambda>curr_ind fs1.
             fs1[curr_ind := set_quality (max (final_quality (fs1 ! curr_ind)) mid_quality)
                               (fs1 ! curr_ind)])
       order fs"

text \<open>The inner binary search; \<open>fq\<close> is the local variable \<^verbatim>\<open>final_quality\<close>.\<close>

function extra_search ::
  "'pic External \<Rightarrow> nat list \<Rightarrow> int \<Rightarrow> int \<Rightarrow> int \<Rightarrow> 'pic Thumbnailer \<Rightarrow> WebPData
     \<Rightarrow> Outcome \<times> int \<times> 'pic Thumbnailer \<times> WebPData" where
  "extra_search ext order min_quality max_quality fq st webp_data =
     (if min_quality \<le> max_quality then
        (let mid_quality = c_div (min_quality + max_quality) 2;
             st1 = st\<lparr>frames := extra_trial mid_quality order (frames st)\<rparr> in
         case GenerateAnimationNoBudget ext st1 of
           Stop e \<Rightarrow> (e, fq, st1, webp_data)
         | Val new_webp_data \<Rightarrow>
             if size_le_budget (data_size new_webp_data) (byte_budget st) then
               extra_search ext order (mid_quality + 1) max_quality mid_quality st1 new_webp_data
             else
               extra_search ext order min_quality (mid_quality - 1) fq st1 webp_data)
      else (ok, fq, st, webp_data))"
  by pat_completeness auto
termination
  by (relation "measure (\<lambda>(ext, ord, lo, hi, fq, st, wd). nat (hi - lo + 1))")
     (use c_div_mid in \<open>auto simp: nat_less_iff\<close>)

text \<open>The commit of a round: every remaining frame below \<open>fq\<close> is raised to it.\<close>

fun extra_commit ::
  "'pic External \<Rightarrow> int \<Rightarrow> nat list \<Rightarrow> 'pic FrameData list \<Rightarrow> Outcome \<times> 'pic FrameData list" where
  "extra_commit ext fq [] fs = (ok, fs)"
| "extra_commit ext fq (curr_ind # rest) fs =
     (if final_quality (fs ! curr_ind) < fq then
        (case GetPictureStats ext
                (set_quality fq ((fs ! curr_ind)\<lparr>final_quality := fq\<rparr>)) of
           (Stop e, frame1) \<Rightarrow> (e, fs[curr_ind := frame1])
         | (Val (new_size, new_psnr), frame1) \<Rightarrow>
             extra_commit ext fq rest
               (fs[curr_ind := frame1\<lparr>encoded_size := new_size, final_psnr := new_psnr\<rparr>]))
      else extra_commit ext fq rest fs)"

text \<open>The outer loop \<^verbatim>\<open>while (!encoding_order.empty())\<close>; each round erases the first entry.\<close>

fun extra_loop ::
  "'pic External \<Rightarrow> (cfloat \<times> nat) list \<Rightarrow> 'pic Thumbnailer \<Rightarrow> WebPData
     \<Rightarrow> Outcome \<times> 'pic Thumbnailer \<times> WebPData" where
  "extra_loop ext [] st webp_data = (ok, st, webp_data)"
| "extra_loop ext (first # rest) st webp_data =
     (let order = map snd (first # rest);
          min_quality = extra_min_quality order (frames st);
          max_quality = min (min_quality + 30) 100 in
      case extra_search ext order min_quality max_quality (-1) st webp_data of
        (Returns kOk, fq, st1, webp_data1) \<Rightarrow>
          if fq = -1 then (ok, st1, webp_data1)
          else
            (case extra_commit ext fq order (frames st1) of
               (Returns kOk, fs) \<Rightarrow> extra_loop ext rest (st1\<lparr>frames := fs\<rparr>) webp_data1
             | (e, fs) \<Rightarrow> (e, st1\<lparr>frames := fs\<rparr>, webp_data1))
      | (e, fq, st1, webp_data1) \<Rightarrow> (e, st1, webp_data1))"

definition ExtraLossyEncode ::
  "'pic External \<Rightarrow> 'pic Thumbnailer \<Rightarrow> WebPData
     \<Rightarrow> Outcome \<times> 'pic Thumbnailer \<times> WebPData" where
  "ExtraLossyEncode ext st webp_data =
     (case encoding_order_loop ext [0..<length (frames st)] (frames st) [] of
        (Returns kOk, fs, encoding_order) \<Rightarrow>
          (case extra_loop ext (SortEncodingOrder ext encoding_order) (st\<lparr>frames := fs\<rparr>)
                  webp_data of
             (Returns kOk, st1, webp_data1) \<Rightarrow>
               (if 0 < data_size webp_data1 then ok else Returns kByteBudgetError,
                st1, webp_data1)
           | (e, st1, webp_data1) \<Rightarrow> (e, st1, webp_data1))
      | (e, fs, encoding_order) \<Rightarrow> (e, st\<lparr>frames := fs\<rparr>, webp_data))"

subsection \<open>GenerateAnimationSlopeOptim\<close>

text \<open>
  The driver is modelled together with a log of the passes it calls: one entry for each call,
  made when the call returns, with the size of \<^verbatim>\<open>webp_data\<close> at that moment. The log is not a
  variable of the program; \<open>GenerateAnimationSlopeOptim\<close> below forgets it.
\<close>

datatype Pass = SlopeOptim | NearLossless | EqualQuality | NoSlopeOptim | ExtraLossy

type_synonym Log = "(Pass \<times> nat) list"

definition KMaxIter :: int where
  "KMaxIter = 5"

text \<open>\<^verbatim>\<open>std::fill(frame.lossy_data, frame.lossy_data + 101, std::make_pair(-1, -1.0))\<close>\<close>

definition reset_lossy_data :: "'pic FrameData \<Rightarrow> 'pic FrameData" where
  "reset_lossy_data frame =
     frame\<lparr>lossy_data := (\<lambda>q. if 0 \<le> q \<and> q \<le> 100 then (-1, -1) else lossy_data frame q)\<rparr>"

text \<open>The first two calls: \<^verbatim>\<open>LossyEncodeSlopeOptim\<close>, then \<^verbatim>\<open>NearLosslessEqual\<close>.\<close>

definition slope_then_near_lossless ::
  "'pic External \<Rightarrow> 'pic Thumbnailer \<Rightarrow> WebPData
     \<Rightarrow> (Outcome \<times> 'pic Thumbnailer \<times> WebPData) \<times> Log" where
  "slope_then_near_lossless ext st webp_data =
     (case LossyEncodeSlopeOptim ext (st\<lparr>frames := map reset_lossy_data (frames st)\<rparr>)
             webp_data of
        (Returns kOk, st1, webp_data1) \<Rightarrow>
          (case NearLosslessEqual ext st1 webp_data1 of
             (r, st2, webp_data2) \<Rightarrow>
               ((r, st2, webp_data2),
                [(SlopeOptim, data_size webp_data1), (NearLossless, data_size webp_data2)]))
      | (e, st1, webp_data1) \<Rightarrow> ((e, st1, webp_data1), [(SlopeOptim, data_size webp_data1)]))"

text \<open>\<^verbatim>\<open>for (int i = 0; i < KMaxIter; ++i)\<close>\<close>

function refine_loop ::
  "'pic External \<Rightarrow> int \<Rightarrow> int \<Rightarrow> 'pic Thumbnailer \<Rightarrow> WebPData \<Rightarrow> Log
     \<Rightarrow> (Outcome \<times> 'pic Thumbnailer \<times> WebPData) \<times> Log" where
  "refine_loop ext i curr_anim_size st webp_data lg =
     (if i < KMaxIter then
        (case LossyEncodeNoSlopeOptim ext st webp_data of
           (Returns kOk, st1, webp_data1) \<Rightarrow>
             if int_eq_size curr_anim_size (data_size webp_data1)
             then ((ok, st1, webp_data1), lg @ [(NoSlopeOptim, data_size webp_data1)])
             else refine_loop ext (i + 1) (size_to_int (data_size webp_data1)) st1 webp_data1
                    (lg @ [(NoSlopeOptim, data_size webp_data1)])
         | (e, st1, webp_data1) \<Rightarrow>
             ((e, st1, webp_data1), lg @ [(NoSlopeOptim, data_size webp_data1)]))
      else ((ok, st, webp_data), lg))"
  by pat_completeness auto
termination
  by (relation "measure (\<lambda>(ext, i, c, st, wd, lg). nat (KMaxIter - i))") auto

definition GenerateAnimationSlopeOptim_logged ::
  "'pic External \<Rightarrow> 'pic Thumbnailer \<Rightarrow> WebPData
     \<Rightarrow> (Outcome \<times> 'pic Thumbnailer \<times> WebPData) \<times> Log" where
  "GenerateAnimationSlopeOptim_logged ext st webp_data =
     (case slope_then_near_lossless ext st webp_data of
        ((Returns kOk, st2, webp_data2), lg2) \<Rightarrow>
          if filter near_lossless (frames st2) = [] then
            (case GenerateAnimationEqualQuality ext st2 webp_data2 of
               (r, st3, webp_data3) \<Rightarrow>
                 ((r, st3, webp_data3), lg2 @ [(EqualQuality, data_size webp_data3)]))
          else
            (case refine_loop ext 0 (size_to_int (data_size webp_data2)) st2 webp_data2 lg2 of
               ((Returns kOk, st3, webp_data3), lg3) \<Rightarrow>
                 (case ExtraLossyEncode ext st3 webp_data3 of
                    (r, st4, webp_data4) \<Rightarrow>
                      ((r, st4, webp_data4), lg3 @ [(ExtraLossy, data_size webp_data4)]))
             | (other, lg3) \<Rightarrow> (other, lg3))
      | (other, lg2) \<Rightarrow> (other, lg2))"

definition GenerateAnimationSlopeOptim ::
  "'pic External \<Rightarrow> 'pic Thumbnailer \<Rightarrow> WebPData
     \<Rightarrow> Outcome \<times> 'pic Thumbnailer \<times> WebPData" where
  "GenerateAnimationSlopeOptim ext st webp_data =
     fst (GenerateAnimationSlopeOptim_logged ext st webp_data)"

section \<open>thumbnailer\_utils.cc\<close>

text \<open>
  \<^verbatim>\<open>UtilsStatus\<close> (its constants \<^verbatim>\<open>kOk\<close> and \<^verbatim>\<open>kMemoryError\<close> carry a suffix here, the names
  being taken by \<open>Status\<close>), the outcome of a call, \<^verbatim>\<open>Frame\<close> and \<^verbatim>\<open>ThumbnailStatsPSNR\<close>.
\<close>

datatype UtilsStatus = kOk_utils | kMemoryError_utils | kGenericError

datatype UtilsOutcome = Returned UtilsStatus | UndefinedBehaviour

record 'pic Frame =
  frame_pic :: 'pic
  timestamp :: int

record ThumbnailStatsPSNR =
  psnr :: "real list"
  min_psnr :: real
  max_psnr :: real
  mean_psnr :: real
  median_psnr :: real

text \<open>
  The animation decoder of libwebp, as \<^verbatim>\<open>AnimData2Frames\<close> drives it: \<^verbatim>\<open>WebPAnimDecoderNew\<close>
  returns a decoder or null; \<^verbatim>\<open>WebPAnimDecoderGetInfo\<close> succeeds or not; then each
  \<^verbatim>\<open>WebPAnimDecoderGetNext\<close> fails, or yields a picture and a timestamp, and the import of the
  picture (\<^verbatim>\<open>WebPPictureInit\<close>, \<^verbatim>\<open>WebPPictureImportRGBA\<close>) fails or not.
  \<^verbatim>\<open>WebPPictureDistortion\<close> returns the PSNR-all of two pictures, or fails. \<open>DoubleRound\<close> is
  the rounding of the machine's \<^verbatim>\<open>double\<close> arithmetic and \<open>FloatNarrow\<close> the conversion of a
  \<^verbatim>\<open>double\<close> to a \<^verbatim>\<open>float\<close>; the values are means of PSNR values, which are finite.
\<close>

datatype 'pic DecodeStep = GetNextFails | ImportFails 'pic int | Decoded 'pic int

record 'pic AnimDecoder =
  has_info :: bool
  steps :: "'pic DecodeStep list"

record 'pic Library =
  WebPAnimDecoderNew :: "WebPData \<Rightarrow> 'pic AnimDecoder option"
  WebPPictureDistortion :: "'pic \<Rightarrow> 'pic \<Rightarrow> real option"
  DoubleRound :: "real \<Rightarrow> real"
  FloatNarrow :: "real \<Rightarrow> real"

text \<open>The \<^verbatim>\<open>while (WebPAnimDecoderHasMoreFrames(dec.get()))\<close> loop.\<close>

fun decode_frames :: "'pic DecodeStep list \<Rightarrow> 'pic Frame list \<Rightarrow> UtilsStatus \<times> 'pic Frame list" where
  "decode_frames [] fs = (kOk_utils, fs)"
| "decode_frames (GetNextFails # rest) fs = (kMemoryError_utils, fs)"
| "decode_frames (ImportFails p t # rest) fs =
     (kMemoryError_utils, fs @ [\<lparr>frame_pic = p, timestamp = t\<rparr>])"
| "decode_frames (Decoded p t # rest) fs =
     decode_frames rest (fs @ [\<lparr>frame_pic = p, timestamp = t\<rparr>])"

definition AnimData2Frames ::
  "'pic Library \<Rightarrow> WebPData \<Rightarrow> 'pic Frame list \<Rightarrow> UtilsStatus \<times> 'pic Frame list" where
  "AnimData2Frames lib webp_data fs =
     (case WebPAnimDecoderNew lib webp_data of
        None \<Rightarrow> (kMemoryError_utils, fs)
      | Some dec \<Rightarrow>
          if has_info dec then decode_frames (steps dec) fs else (kGenericError, fs))"

text \<open>
  The loop of \<^verbatim>\<open>AnimData2PSNR\<close> over the original frames; \<open>psnrs\<close> is \<^verbatim>\<open>stats->psnr\<close>. The
  result is \<open>None\<close> when \<^verbatim>\<open>new_frames[new_frame_index]\<close> is outside the vector.
\<close>

fun psnr_loop ::
  "'pic Library \<Rightarrow> 'pic Frame list \<Rightarrow> 'pic Frame list \<Rightarrow> nat \<Rightarrow> real list \<Rightarrow> real list option" where
  "psnr_loop lib [] new_frames new_frame_index psnrs = Some psnrs"
| "psnr_loop lib (original_frame # rest) new_frames new_frame_index psnrs =
     (let new_frame_index1 =
            (if new_frame_index + 1 < length new_frames \<and>
                timestamp (new_frames ! (new_frame_index + 1)) = timestamp original_frame
             then new_frame_index + 1 else new_frame_index)
      in
        if length new_frames \<le> new_frame_index1 then None
        else
          (case WebPPictureDistortion lib (frame_pic original_frame)
                  (frame_pic (new_frames ! new_frame_index1)) of
             None \<Rightarrow> Some psnrs
           | Some psnr_all \<Rightarrow> psnr_loop lib rest new_frames new_frame_index1 (psnrs @ [psnr_all])))"

text \<open>
  \<^verbatim>\<open>std::accumulate(new_psnr.begin(), new_psnr.end(), 0.0)\<close>: the sum is a \<^verbatim>\<open>double\<close>, rounded
  at every addition.
\<close>

definition accumulate :: "'pic Library \<Rightarrow> real list \<Rightarrow> real" where
  "accumulate lib xs = foldl (\<lambda>acc x. DoubleRound lib (acc + x)) 0 xs"

text \<open>
  The statistics, recorded from the sorted copy \<^verbatim>\<open>new_psnr\<close>. The mean is the quotient of two
  \<^verbatim>\<open>double\<close> values, stored in a \<^verbatim>\<open>float\<close>.
\<close>

definition record_statistics ::
  "'pic Library \<Rightarrow> nat \<Rightarrow> ThumbnailStatsPSNR \<Rightarrow> ThumbnailStatsPSNR" where
  "record_statistics lib frame_count stats =
     (let new_psnr = sort (psnr stats) in
      stats\<lparr>min_psnr := hd new_psnr, max_psnr := last new_psnr,
            mean_psnr :=
              FloatNarrow lib (DoubleRound lib (accumulate lib new_psnr / real frame_count)),
            median_psnr := new_psnr ! (frame_count div 2)\<rparr>)"

text \<open>
  \<^verbatim>\<open>AnimData2PSNR\<close>; \<open>stats\<close> is \<open>None\<close> for a null pointer. With no PSNR value at all,
  \<^verbatim>\<open>new_psnr.front()\<close> reads an empty vector.
\<close>

definition AnimData2PSNR ::
  "'pic Library \<Rightarrow> 'pic Frame list \<Rightarrow> WebPData \<Rightarrow> ThumbnailStatsPSNR option
     \<Rightarrow> UtilsOutcome \<times> ThumbnailStatsPSNR option" where
  "AnimData2PSNR lib original_frames webp_data stats =
     (case stats of
        None \<Rightarrow> (Returned kMemoryError_utils, None)
      | Some s \<Rightarrow>
          (case AnimData2Frames lib webp_data [] of
             (kOk_utils, new_frames) \<Rightarrow>
               (case psnr_loop lib original_frames new_frames 0 (psnr s) of
                  None \<Rightarrow> (UndefinedBehaviour, Some s)
                | Some psnrs \<Rightarrow>
                    if length psnrs = length original_frames then
                      (if psnrs = [] then (UndefinedBehaviour, Some (s\<lparr>psnr := psnrs\<rparr>))
                       else (Returned kOk_utils,
                             Some (record_statistics lib (length original_frames)
                                     (s\<lparr>psnr := psnrs\<rparr>))))
                    else (Returned kGenericError, Some (s\<lparr>psnr := psnrs\<rparr>)))
           | (e, new_frames) \<Rightarrow> (Returned e, Some s)))"

section \<open>Example inputs\<close>

text \<open>
  A codec whose statistics depend on the quality only, an assembler whose output has one
  size per frame quality, library sorts that keep the order of equivalent keys, and a float
  arithmetic without rounding error: the values of the examples are floats, and so are the
  results of the operations on them but for some quotients, of which the examples only use
  the order.
\<close>

definition example_data :: "nat \<Rightarrow> WebPData" where
  "example_data n = \<lparr>bytes = replicate n 0\<rparr>"

fun insert_by_slope :: "cfloat \<times> nat \<Rightarrow> (cfloat \<times> nat) list \<Rightarrow> (cfloat \<times> nat) list" where
  "insert_by_slope x [] = [x]"
| "insert_by_slope x (y # ys) =
     (if float_less (fst x) (fst y) then x # y # ys else y # insert_by_slope x ys)"

fun insert_slope :: "cfloat \<Rightarrow> cfloat list \<Rightarrow> cfloat list" where
  "insert_slope x [] = [x]"
| "insert_slope x (y # ys) =
     (if float_less y x then y # insert_slope x ys else x # y # ys)"

definition sort_slopes :: "cfloat list \<Rightarrow> cfloat list" where
  "sort_slopes xs = foldr insert_slope xs []"

definition example_ext :: "(int \<Rightarrow> int \<times> real) \<Rightarrow> (int \<Rightarrow> int) \<Rightarrow> nat External" where
  "example_ext stats asm =
     \<lparr>EncodeMeasure = (\<lambda>p c. Some (stats (quality c))),
      AnimEncoderAssemble =
        (\<lambda>fs. Some (example_data (nat (sum_list (map (\<lambda>(p, t, c). asm (quality c)) fs))))),
      GetAnimationSize = (\<lambda>d. int (data_size d)),
      SortFrames = sort_key timestamp_ms,
      SortEncodingOrder = (\<lambda>xs. foldr insert_by_slope xs []),
      SortSlopes = sort_slopes,
      FloatRound = Fin,
      NearLosslessEqual = (\<lambda>st wd. (ok, st, wd)),
      GenerateAnimationEqualQuality = (\<lambda>st wd. (ok, st, wd))\<rparr>"

text \<open>A frame as \<^verbatim>\<open>AddFrame\<close> leaves it, but for the given final values.\<close>

definition example_frame :: "bool \<Rightarrow> int \<Rightarrow> int \<Rightarrow> real \<Rightarrow> nat FrameData" where
  "example_frame ll fq sz ps =
     \<lparr>pic = 0, timestamp_ms = 0, config = \<lparr>quality = 75, lossless = ll\<rparr>,
      encoded_size = sz, final_quality = fq, final_psnr = ps, near_lossless = ll,
      lossy_data = (\<lambda>q. (-1, -1))\<rparr>"

definition example_state :: "nat FrameData list \<Rightarrow> int \<Rightarrow> nat Thumbnailer" where
  "example_state fs budget = \<lparr>frames = fs, byte_budget = budget, minimum_lossy_quality = 0\<rparr>"

text \<open>Size \<open>100 + q\<close> and PSNR \<open>q\<close> at quality \<open>q\<close>.\<close>

definition linear_stats :: "int \<Rightarrow> int \<times> real" where
  "linear_stats q = (100 + q, real_of_int q)"

text \<open>The same, but for a PSNR at quality 100 that is 2 dB above the one at quality 99.\<close>

definition steep_stats :: "int \<Rightarrow> int \<times> real" where
  "steep_stats q = (100 + q, if q = 100 then 101 else real_of_int q)"

text \<open>
  One frame at quality 50 in an animation of 200 bytes, a budget of 210 bytes, and an
  assembler that needs \<open>100 + 2 q\<close> bytes for a frame at quality \<open>q\<close>.
\<close>

definition revert_ext :: "nat External" where
  "revert_ext = example_ext linear_stats (\<lambda>q. 100 + 2 * q)"

definition revert_state :: "nat Thumbnailer" where
  "revert_state = example_state [example_frame False 50 150 50] 210"


text \<open>One fresh frame, a budget of 1000 bytes, and the codec with the 2 dB step at 100.\<close>

definition steep_ext :: "nat External" where
  "steep_ext = example_ext steep_stats (\<lambda>q. 100 + q)"

definition fresh_frame :: "nat FrameData" where
  "fresh_frame = example_frame False (-1) 0 0"

text \<open>
  A codec whose PSNR has a plateau from quality 73 to 76 and whose size jumps at quality 100,
  and a \<^verbatim>\<open>NearLosslessEqual\<close> that switches every frame to a near-lossless encoding of 170
  bytes and 72.5 dB.
\<close>

definition plateau_stats :: "int \<Rightarrow> int \<times> real" where
  "plateau_stats q =
     (if q = 100 then 1000 else 100 + q, if 73 \<le> q \<and> q \<le> 76 then 73 else real_of_int q)"

definition mark_near_lossless ::
  "nat Thumbnailer \<Rightarrow> WebPData \<Rightarrow> Outcome \<times> nat Thumbnailer \<times> WebPData" where
  "mark_near_lossless st wd =
     (ok,
      st\<lparr>frames :=
           map (\<lambda>f. f\<lparr>config := (config f)\<lparr>lossless := True\<rparr>, encoded_size := 170,
                      final_psnr := 72.5, near_lossless := True\<rparr>) (frames st)\<rparr>,
      example_data 170)"

definition plateau_ext :: "nat External" where
  "plateau_ext =
     (example_ext plateau_stats (\<lambda>q. fst (plateau_stats q)))
       \<lparr>NearLosslessEqual := mark_near_lossless\<rparr>"

definition plateau_state :: "nat Thumbnailer" where
  "plateau_state = example_state [fresh_frame] 175"

definition linear_ext :: "nat External" where
  "linear_ext = example_ext linear_stats (\<lambda>q. 100 + q)"

text \<open>Two frames: the first already at quality 50, the second still unset.\<close>

definition round_state :: "nat Thumbnailer" where
  "round_state = example_state [example_frame False 50 150 50, fresh_frame] 1000"

text \<open>
  A decoded animation of two frames, at 0 ms and 20 ms, for three original frames at 0, 10
  and 20 ms (the first two were merged), a distortion measure on pictures that are numbers,
  and a \<^verbatim>\<open>double\<close> arithmetic without rounding error: the sums and the mean of the examples
  are integers.
\<close>

definition example_library :: "nat Library" where
  "example_library =
     \<lparr>WebPAnimDecoderNew =
        (\<lambda>d. Some \<lparr>has_info = True, steps = [Decoded 1 0, Decoded 2 20]\<rparr>),
      WebPPictureDistortion = (\<lambda>a b. Some (real (10 * a + b))),
      DoubleRound = (\<lambda>x. x),
      FloatNarrow = (\<lambda>x. x)\<rparr>"

definition example_originals :: "nat Frame list" where
  "example_originals =
     [\<lparr>frame_pic = 2, timestamp = 0\<rparr>, \<lparr>frame_pic = 4, timestamp = 10\<rparr>,
      \<lparr>frame_pic = 5, timestamp = 20\<rparr>]"

definition empty_stats :: ThumbnailStatsPSNR where
  "empty_stats = \<lparr>psnr = [], min_psnr = 0, max_psnr = 0, mean_psnr = 0, median_psnr = 0\<rparr>"

text \<open>
  The same library, but for a distortion measure that fails on the picture 5, and a
  \<^verbatim>\<open>stats\<close> that already holds one PSNR value when \<^verbatim>\<open>AnimData2PSNR\<close> is called.
\<close>

definition failing_library :: "nat Library" where
  "failing_library =
     example_library
       \<lparr>WebPPictureDistortion := (\<lambda>a b. if a = 5 then None else Some (real (10 * a + b)))\<rparr>"

definition used_stats :: ThumbnailStatsPSNR where
  "used_stats = \<lparr>psnr = [10], min_psnr = 10, max_psnr = 10, mean_psnr = 10, median_psnr = 10\<rparr>"

text \<open>
  A codec that only accepts the qualities from 0 to 100, and a \<^verbatim>\<open>NearLosslessEqual\<close> that
  marks every frame near-lossless and leaves the animation as it is.
\<close>

definition bounded_ext :: "nat External" where
  "bounded_ext =
     linear_ext
       \<lparr>EncodeMeasure :=
          (\<lambda>p c. if 0 \<le> quality c \<and> quality c \<le> 100 then Some (linear_stats (quality c))
                  else None)\<rparr>"

definition flag_near_lossless ::
  "nat Thumbnailer \<Rightarrow> WebPData \<Rightarrow> Outcome \<times> nat Thumbnailer \<times> WebPData" where
  "flag_near_lossless st wd =
     (ok,
      st\<lparr>frames :=
           map (\<lambda>f. f\<lparr>config := (config f)\<lparr>lossless := True\<rparr>, near_lossless := True\<rparr>)
             (frames st)\<rparr>,
      wd)"

definition flag_ext :: "nat External" where
  "flag_ext = linear_ext\<lparr>NearLosslessEqual := flag_near_lossless\<rparr>"

text \<open>One frame at quality 50 and 150 bytes, with a budget of 170 bytes.\<close>

definition raise_state :: "nat Thumbnailer" where
  "raise_state = example_state [example_frame False 50 150 50] 170"





section \<open>Specification-level notions used in the statements\<close>



text \<open>
  The test that keeps a frame in the active set of a round of the global binary search, in
  the words of the specification: its \<^verbatim>\<open>final_quality\<close> is still unset, or its local slope
  between the current search bounds exceeds the limit slope.
\<close>

definition keeps_active :: "'pic External \<Rightarrow> int \<Rightarrow> int \<Rightarrow> cfloat \<Rightarrow> 'pic FrameData \<Rightarrow> bool" where
  "keeps_active ext min_quality max_quality limit_slope frame =
     (final_quality frame = -1 \<or>
      (case fst (ComputeSlope ext min_quality max_quality frame) of
         Val curr_slope \<Rightarrow> float_less limit_slope curr_slope
       | Stop e \<Rightarrow> False))"

text \<open>
  The index into the decoded frames that each original frame is matched with, in the words
  of the specification: starting from \<open>j\<close>, the index advances by one exactly when the next
  decoded frame's timestamp equals the timestamp of the current original frame.
\<close>

fun matched_indices :: "int list \<Rightarrow> int list \<Rightarrow> nat \<Rightarrow> nat list" where
  "matched_indices [] decoded j = []"
| "matched_indices (t # ts) decoded j =
     (let j1 = (if j + 1 < length decoded \<and> decoded ! (j + 1) = t then j + 1 else j)
      in j1 # matched_indices ts decoded j1)"


text \<open>
  The statistics of a frame at the quality \<open>q\<close>, as \<^verbatim>\<open>GetPictureStats\<close> gives them: the entry
  of the frame's cache when there is one, what the codec measures otherwise, \<open>None\<close> when the
  codec fails. \<open>size_at\<close> and \<open>psnr_at\<close> are the size and the PSNR of the specification.
\<close>

definition stats_at :: "'pic External \<Rightarrow> 'pic FrameData \<Rightarrow> int \<Rightarrow> (int \<times> real) option" where
  "stats_at ext frame q =
     (if 0 \<le> q \<and> q \<le> 100 \<and> lossy_data frame q \<noteq> (-1, -1) then Some (lossy_data frame q)
      else EncodeMeasure ext (pic frame) ((config frame)\<lparr>quality := q\<rparr>))"


definition psnr_at :: "'pic External \<Rightarrow> 'pic FrameData \<Rightarrow> int \<Rightarrow> real" where
  "psnr_at ext frame q = snd (the (stats_at ext frame q))"

text \<open>
  The part of the codec contract that the threshold search relies on: the statistics exist at
  every quality from 0 to 100, and a higher quality never has a lower PSNR.
\<close>

definition codec_contract :: "'pic External \<Rightarrow> 'pic FrameData \<Rightarrow> bool" where
  "codec_contract ext frame =
     ((\<forall>q. 0 \<le> q \<and> q \<le> 100 \<longrightarrow> stats_at ext frame q \<noteq> None)
      \<and> (\<forall>q q'. 0 \<le> q \<and> q \<le> q' \<and> q' \<le> 100
            \<longrightarrow> psnr_at ext frame q \<le> psnr_at ext frame q'))"







text \<open>
  The \<^verbatim>\<open>final_psnr\<close> of a frame is the PSNR at its \<^verbatim>\<open>final_quality\<close>, as the lossy passes
  leave it; nothing is asked of a frame that is near-lossless.
\<close>

definition final_psnr_measured :: "'pic External \<Rightarrow> 'pic FrameData \<Rightarrow> bool" where
  "final_psnr_measured ext frame =
     (near_lossless frame
      \<or> (0 \<le> final_quality frame
          \<and> final_psnr frame = psnr_at ext frame (final_quality frame)))"

section \<open>Relations used in the proofs\<close>

text \<open>
  What \<^verbatim>\<open>ExtraLossyEncode\<close> may do to a frame: the statistics and the
  near-lossless flag stay, the \<^verbatim>\<open>final_quality\<close> does not go down, and the \<^verbatim>\<open>final_psnr\<close>
  stays or, in a frame that is not near-lossless, becomes the PSNR at a quality between the
  former \<^verbatim>\<open>final_quality\<close> and 100. \<open>lossy_indices\<close>: no index of the encoding order is the
  index of a near-lossless frame.
\<close>

definition top_up_step :: "'pic External \<Rightarrow> 'pic FrameData \<Rightarrow> 'pic FrameData \<Rightarrow> bool" where
  "top_up_step ext f f1 =
     (stats_at ext f1 = stats_at ext f \<and> near_lossless f1 = near_lossless f
      \<and> final_quality f \<le> final_quality f1
      \<and> (final_psnr f1 = final_psnr f
          \<or> (\<not> near_lossless f
              \<and> (\<exists>q. final_quality f \<le> q \<and> q \<le> 100 \<and> final_psnr f1 = psnr_at ext f q))))"

definition lossy_indices :: "nat list \<Rightarrow> 'pic FrameData list \<Rightarrow> bool" where
  "lossy_indices order fs = (\<forall>i \<in> set order. i < length fs \<longrightarrow> \<not> near_lossless (fs ! i))"

section \<open>Properties of the passes\<close>

subsection \<open>LossyEncodeNoSlopeOptim: the two ways it leaves the output alone\<close>

text \<open>
  C9: if, on entry to \<^verbatim>\<open>LossyEncodeNoSlopeOptim\<close>, the current animation size exceeds
  \<^verbatim>\<open>byte_budget\<close>, the pass returns \<^verbatim>\<open>kOk\<close> and changes nothing: \<^verbatim>\<open>webp_data\<close> and every field
  of every frame are as they were.
\<close>

theorem noslope_over_budget_is_noop:
  assumes "byte_budget st < GetAnimationSize ext webp_data"
  shows "LossyEncodeNoSlopeOptim ext st webp_data = (ok, st, webp_data)"
  using assms by (simp add: LossyEncodeNoSlopeOptim_def)

theorem noslope_over_budget_is_noop_example:
  "byte_budget (example_state [example_frame False 50 150 50] 100)
     < GetAnimationSize (example_ext linear_stats (\<lambda>q. 100 + q)) (example_data 150)
   \<and> LossyEncodeNoSlopeOptim (example_ext linear_stats (\<lambda>q. 100 + q))
        (example_state [example_frame False 50 150 50] 100) (example_data 150)
      = (ok, example_state [example_frame False 50 150 50] 100, example_data 150)"
proof -
  have over: "byte_budget (example_state [example_frame False 50 150 50] 100)
     < GetAnimationSize (example_ext linear_stats (\<lambda>q. 100 + q)) (example_data 150)"
    by (simp add: example_state_def example_ext_def example_data_def data_size_def)
  from over noslope_over_budget_is_noop [OF over] show ?thesis by simp
qed

text \<open>
  C10: if the animation re-assembled at the end of the scan exceeds \<^verbatim>\<open>byte_budget\<close>, the
  pass drops the new buffer and returns \<^verbatim>\<open>kOk\<close> with \<^verbatim>\<open>webp_data\<close> unchanged, while the
  \<^verbatim>\<open>final_quality\<close>, \<^verbatim>\<open>final_psnr\<close> and \<^verbatim>\<open>encoded_size\<close> that the scan accepted stay in the
  frames.
\<close>

theorem noslope_revert_keeps_frame_values:
  assumes "0 \<le> byte_budget st"
    and "GetAnimationSize ext webp_data \<le> byte_budget st"
    and "noslope_scan ext (byte_budget st) (int (length (frames st)))
           (GetAnimationSize ext webp_data) (frames st) = (ok, anim_size1, fs)"
    and "GenerateAnimationNoBudget ext (st\<lparr>frames := map restore_config fs\<rparr>)
           = Val new_webp_data"
    and "byte_budget st < int (data_size new_webp_data)"
  shows "LossyEncodeNoSlopeOptim ext st webp_data
           = (ok, st\<lparr>frames := map restore_config fs\<rparr>, webp_data)
         \<and> map final_quality (map restore_config fs) = map final_quality fs
         \<and> map final_psnr (map restore_config fs) = map final_psnr fs
         \<and> map encoded_size (map restore_config fs) = map encoded_size fs"
  using assms
  by (simp add: LossyEncodeNoSlopeOptim_def size_le_budget_def restore_config_def Let_def
      comp_def)

theorem noslope_revert_keeps_frame_values_example:
  "0 \<le> byte_budget revert_state
   \<and> GetAnimationSize revert_ext (example_data 200) \<le> byte_budget revert_state
   \<and> fst (noslope_scan revert_ext 210 1 200 (frames revert_state)) = ok
   \<and> map final_quality (snd (snd (noslope_scan revert_ext 210 1 200 (frames revert_state))))
       = [60]
   \<and> byte_budget revert_state < int (data_size (example_data 220))
   \<and> LossyEncodeNoSlopeOptim revert_ext revert_state (example_data 200)
       = (ok,
          revert_state\<lparr>frames := map restore_config
             (snd (snd (noslope_scan revert_ext 210 1 200 (frames revert_state))))\<rparr>,
          example_data 200)"
proof -
  let ?scan = "noslope_scan revert_ext 210 1 200 (frames revert_state)"
  have budget: "byte_budget revert_state = 210" and len: "int (length (frames revert_state)) = 1"
    by (simp_all add: revert_state_def example_state_def)
  have anim: "GetAnimationSize revert_ext (example_data 200) = 200"
    by (simp add: revert_ext_def example_ext_def example_data_def data_size_def)
  have h1: "0 \<le> byte_budget revert_state" and h2:
    "GetAnimationSize revert_ext (example_data 200) \<le> byte_budget revert_state"
    by (simp_all add: budget anim)
  have scan_ok: "fst ?scan = ok" by code_simp
  have scan_q: "map final_quality (snd (snd ?scan)) = [60]" by code_simp
  have h3: "noslope_scan revert_ext (byte_budget revert_state)
              (int (length (frames revert_state)))
              (GetAnimationSize revert_ext (example_data 200)) (frames revert_state)
            = (ok, fst (snd ?scan), snd (snd ?scan))"
    unfolding budget len anim using scan_ok by (metis prod.collapse)
  have h4: "GenerateAnimationNoBudget revert_ext
              (revert_state\<lparr>frames := map restore_config (snd (snd ?scan))\<rparr>)
            = Val (example_data 220)"
    by code_simp
  have h5: "byte_budget revert_state < int (data_size (example_data 220))"
    by (simp add: budget example_data_def data_size_def)
  from noslope_revert_keeps_frame_values [OF h1 h2 h3 h4 h5] h1 h2 scan_ok scan_q h5
  show ?thesis by simp
qed

subsection \<open>The slopes\<close>

lemma ComputeSlope_equal_sizes:
  "GetPictureStats ext (set_quality low_quality frame) = (Val (sz, low_psnr), frame1) \<Longrightarrow>
   GetPictureStats ext (set_quality high_quality frame1) = (Val (sz, high_psnr), frame2) \<Longrightarrow>
   ComputeSlope ext low_quality high_quality frame = (Val (Fin 0), frame2)"
  by (simp add: ComputeSlope_def)

text \<open>
  C7: the statement that every slope is 0 when the two sizes are equal, also for the slope
  tracked in the threshold search of \<^verbatim>\<open>FindMedianSlope\<close>, fails there. For one frame whose
  PSNR at quality 100 is more than 1 dB above its PSNR at 99, the search ends at quality 100,
  where both sizes are the size at 100: the slope is \<open>0 / 0\<close>, a NaN, and it is the median
  that \<^verbatim>\<open>FindMedianSlope\<close> returns. \<^verbatim>\<open>ComputeSlope\<close> on the same two points returns 0.
\<close>

theorem threshold_slope_is_nan:
  "fst (FindMedianSlope steep_ext (example_state [fresh_frame] 1000)) = Val NaN
   \<and> fst (ComputeSlope steep_ext 100 100 fresh_frame) = Val (Fin 0)"
  by code_simp

subsection \<open>The order of the passes in GenerateAnimationSlopeOptim\<close>

declare refine_loop.simps [simp del]










subsection \<open>What the statistics calls change in a frame\<close>

lemma GetPictureStats_fields:
  "GetPictureStats ext frame = (r, frame1) \<Longrightarrow> \<exists>c. frame1 = frame\<lparr>lossy_data := c\<rparr>"
  by (auto simp: GetPictureStats_def Let_def split: if_splits option.splits
      intro: exI [of _ "lossy_data frame"])

lemma ComputeSlope_fields:
  assumes "ComputeSlope ext low_quality high_quality frame = (r, frame1)"
  shows "\<exists>q c. frame1 = frame\<lparr>config := (config frame)\<lparr>quality := q\<rparr>, lossy_data := c\<rparr>"
proof -
  obtain r1 f1 where g1: "GetPictureStats ext (set_quality low_quality frame) = (r1, f1)"
    by (cases "GetPictureStats ext (set_quality low_quality frame)") auto
  from GetPictureStats_fields [OF g1] obtain c1 where
    f1: "f1 = (set_quality low_quality frame)\<lparr>lossy_data := c1\<rparr>" by blast
  show ?thesis
  proof (cases r1)
    case (Stop e)
    with assms g1 have "frame1 = f1" by (simp add: ComputeSlope_def)
    with f1 show ?thesis by (auto simp: set_quality_def)
  next
    case (Val v)
    obtain r2 f2 where g2: "GetPictureStats ext (set_quality high_quality f1) = (r2, f2)"
      by (cases "GetPictureStats ext (set_quality high_quality f1)") auto
    from GetPictureStats_fields [OF g2] obtain c2 where
      f2: "f2 = (set_quality high_quality f1)\<lparr>lossy_data := c2\<rparr>" by blast
    from assms g1 g2 Val have "frame1 = f2"
      by (cases v; cases r2) (auto simp: ComputeSlope_def split: prod.splits)
    with f1 f2 show ?thesis
      by (intro exI [of _ high_quality] exI [of _ c2]) (simp add: set_quality_def)
  qed
qed

lemma GetPictureStats_Stop:
  "GetPictureStats ext frame = (Stop e, frame1) \<Longrightarrow> e = Returns kStatsError"
  by (auto simp: GetPictureStats_def Let_def split: if_splits option.splits)

lemma ComputeSlope_Stop:
  "ComputeSlope ext lo hi frame = (Stop e, frame1) \<Longrightarrow> e = Returns kStatsError"
  by (auto simp: ComputeSlope_def split: prod.splits Res.splits dest: GetPictureStats_Stop)

lemma ComputeSlope_final_quality:
  "ComputeSlope ext lo hi frame = (r, frame1) \<Longrightarrow> final_quality frame1 = final_quality frame"
  by (drule ComputeSlope_fields) auto

subsection \<open>One round of the global binary search\<close>

lemma select_active_acc:
  assumes "select_active ext lo hi mid limit optim_list fs acc = (ok, fs', new_list)"
    and "distinct optim_list" and "\<forall>i\<in>set optim_list. i < length fs"
  shows "new_list = acc @ filter (\<lambda>i. keeps_active ext lo hi limit (fs ! i)) optim_list
         \<and> length fs' = length fs
         \<and> (\<forall>j. j \<notin> set optim_list \<longrightarrow> fs' ! j = fs ! j)
         \<and> (\<forall>i\<in>set optim_list. keeps_active ext lo hi limit (fs ! i) \<longrightarrow>
               quality (config (fs' ! i)) = mid)"
  using assms
proof (induction optim_list arbitrary: fs acc)
  case Nil
  then show ?case by simp
next
  case (Cons i rest)
  obtain r f1 where cs: "ComputeSlope ext lo hi (fs ! i) = (r, f1)"
    by (cases "ComputeSlope ext lo hi (fs ! i)") auto
  from Cons.prems(1) cs obtain s where r: "r = Val s"
    by (cases r) (auto dest: ComputeSlope_Stop)
  have fq: "final_quality f1 = final_quality (fs ! i)"
    using cs by (rule ComputeSlope_final_quality)
  have keep_iff: "keeps_active ext lo hi limit (fs ! i)
      \<longleftrightarrow> final_quality f1 = -1 \<or> float_less limit s"
    by (simp add: keeps_active_def cs r fq)
  from Cons.prems have i: "i < length fs" and ni: "i \<notin> set rest" and d: "distinct rest"
    by auto
  define fs1 where "fs1 = (if keeps_active ext lo hi limit (fs ! i)
      then fs[i := set_quality mid f1] else fs[i := f1])"
  define acc1 where "acc1 = (if keeps_active ext lo hi limit (fs ! i) then acc @ [i] else acc)"
  from Cons.prems(1) cs r keep_iff
  have rec: "select_active ext lo hi mid limit rest fs1 acc1 = (ok, fs', new_list)"
    by (auto simp: fs1_def acc1_def)
  have len1: "length fs1 = length fs" by (simp add: fs1_def)
  have same: "\<And>j. j \<noteq> i \<Longrightarrow> fs1 ! j = fs ! j" by (simp add: fs1_def)
  from Cons.prems(3) len1 have range: "\<forall>j\<in>set rest. j < length fs1" by simp
  note IH = Cons.IH [OF rec d range]
  have filt: "filter (\<lambda>j. keeps_active ext lo hi limit (fs1 ! j)) rest
      = filter (\<lambda>j. keeps_active ext lo hi limit (fs ! j)) rest"
  proof (rule filter_cong [OF refl])
    fix x assume "x \<in> set rest"
    with ni have "x \<noteq> i" by auto
    then show "keeps_active ext lo hi limit (fs1 ! x) = keeps_active ext lo hi limit (fs ! x)"
      using same by simp
  qed
  have at_i: "fs' ! i = fs1 ! i" using IH ni by blast
  have q_i: "keeps_active ext lo hi limit (fs ! i) \<Longrightarrow> quality (config (fs1 ! i)) = mid"
    using i by (simp add: fs1_def set_quality_def)
  show ?case
  proof (intro conjI allI impI ballI)
    show "new_list = acc @ filter (\<lambda>i. keeps_active ext lo hi limit (fs ! i)) (i # rest)"
      using IH filt by (simp add: acc1_def)
    show "length fs' = length fs" using IH len1 by simp
  next
    fix j assume "j \<notin> set (i # rest)"
    then show "fs' ! j = fs ! j" using IH same by auto
  next
    fix j assume j: "j \<in> set (i # rest)" and k: "keeps_active ext lo hi limit (fs ! j)"
    show "quality (config (fs' ! j)) = mid"
    proof (cases "j = i")
      case True
      with k q_i at_i show ?thesis by simp
    next
      case False
      with j have jr: "j \<in> set rest" by simp
      from False k same have "keeps_active ext lo hi limit (fs1 ! j)" by simp
      with IH jr show ?thesis by blast
    qed
  qed
qed


declare slope_optim_loop.simps [simp del]

text \<open>
  C5: in every round of the global binary search of \<^verbatim>\<open>LossyEncodeSlopeOptim\<close>, a frame of the
  current active set is kept in the next active set, and has its quality pushed to the
  midpoint, if and only if its \<^verbatim>\<open>final_quality\<close> is still \<open>-1\<close> or its local slope between the
  current bounds exceeds \<open>limit_slope\<close>; the next round runs on that list, which is a subset
  of the current one.
\<close>

theorem active_set_round:
  assumes "min_quality \<le> max_quality" and "optim_list \<noteq> []"
    and "distinct optim_list" and "\<forall>i\<in>set optim_list. i < length (frames st)"
    and "select_active ext min_quality max_quality (c_div (min_quality + max_quality) 2)
           limit_slope optim_list (frames st) [] = (ok, fs, new_optim_list)"
  shows "new_optim_list
           = filter (\<lambda>i. keeps_active ext min_quality max_quality limit_slope (frames st ! i))
               optim_list
         \<and> (\<forall>i\<in>set new_optim_list.
               quality (config (fs ! i)) = c_div (min_quality + max_quality) 2)
         \<and> set new_optim_list \<subseteq> set optim_list
         \<and> slope_optim_loop ext limit_slope min_quality max_quality optim_list st webp_data
           = (if new_optim_list = [] then (ok, st\<lparr>frames := fs\<rparr>, webp_data)
              else
                (case GenerateAnimationNoBudget ext (st\<lparr>frames := fs\<rparr>) of
                   Stop e \<Rightarrow> (e, st\<lparr>frames := fs\<rparr>, webp_data)
                 | Val new_webp_data \<Rightarrow>
                     if size_le_budget (data_size new_webp_data) (byte_budget st) then
                       slope_optim_loop ext limit_slope
                         (c_div (min_quality + max_quality) 2 + 1) max_quality new_optim_list
                         (st\<lparr>frames := commit_quality (c_div (min_quality + max_quality) 2)
                                          new_optim_list fs\<rparr>)
                         new_webp_data
                     else
                       slope_optim_loop ext limit_slope min_quality
                         (c_div (min_quality + max_quality) 2 - 1) new_optim_list
                         (st\<lparr>frames := fs\<rparr>) webp_data))"
proof -
  note sel = select_active_acc [OF assms(5) assms(3) assms(4)]
  from sel have new: "new_optim_list
      = filter (\<lambda>i. keeps_active ext min_quality max_quality limit_slope (frames st ! i))
          optim_list"
    by simp
  from sel new have mid: "\<forall>i\<in>set new_optim_list.
      quality (config (fs ! i)) = c_div (min_quality + max_quality) 2"
    by auto
  from new have sub: "set new_optim_list \<subseteq> set optim_list" by auto
  have loop: "slope_optim_loop ext limit_slope min_quality max_quality optim_list st webp_data
           = (if new_optim_list = [] then (ok, st\<lparr>frames := fs\<rparr>, webp_data)
              else
                (case GenerateAnimationNoBudget ext (st\<lparr>frames := fs\<rparr>) of
                   Stop e \<Rightarrow> (e, st\<lparr>frames := fs\<rparr>, webp_data)
                 | Val new_webp_data \<Rightarrow>
                     if size_le_budget (data_size new_webp_data) (byte_budget st) then
                       slope_optim_loop ext limit_slope
                         (c_div (min_quality + max_quality) 2 + 1) max_quality new_optim_list
                         (st\<lparr>frames := commit_quality (c_div (min_quality + max_quality) 2)
                                          new_optim_list fs\<rparr>)
                         new_webp_data
                     else
                       slope_optim_loop ext limit_slope min_quality
                         (c_div (min_quality + max_quality) 2 - 1) new_optim_list
                         (st\<lparr>frames := fs\<rparr>) webp_data))"
    using assms(1,2,5) by (subst slope_optim_loop.simps) (simp add: Let_def)
  from new mid sub loop show ?thesis by blast
qed

theorem active_set_round_example:
  "fst (select_active linear_ext 51 100 75 (Fin 1) [0, 1] (frames round_state) []) = ok
   \<and> map final_quality (frames round_state) = [50, -1]
   \<and> fst (ComputeSlope linear_ext 51 100 (frames round_state ! 0)) = Val (Fin 1)
   \<and> snd (snd (select_active linear_ext 51 100 75 (Fin 1) [0, 1] (frames round_state) []))
       = [1]
   \<and> snd (snd (select_active linear_ext 51 100 75 (Fin 1) [0, 1] (frames round_state) []))
       = filter (\<lambda>i. keeps_active linear_ext 51 100 (Fin 1) (frames round_state ! i)) [0, 1]
   \<and> map (quality \<circ> config)
        (fst (snd (select_active linear_ext 51 100 75 (Fin 1) [0, 1] (frames round_state) [])))
       = [100, 75]"
proof -
  let ?sel = "select_active linear_ext 51 100 75 (Fin 1) [0, 1] (frames round_state) []"
  have mid: "c_div (51 + 100) 2 = 75" by (simp add: c_div_def)
  have sel_ok: "fst ?sel = ok" by code_simp
  have h5: "select_active linear_ext 51 100 (c_div (51 + 100) 2) (Fin 1) [0, 1]
              (frames round_state) [] = (ok, fst (snd ?sel), snd (snd ?sel))"
    unfolding mid using sel_ok by (metis prod.collapse)
  have h4: "\<forall>i\<in>set [0, 1::nat]. i < length (frames round_state)"
    by (simp add: round_state_def example_state_def)
  have fq: "map final_quality (frames round_state) = [50, -1]" by code_simp
  have sl: "fst (ComputeSlope linear_ext 51 100 (frames round_state ! 0)) = Val (Fin 1)"
    by code_simp
  have new: "snd (snd ?sel) = [1]" by code_simp
  have qs: "map (quality \<circ> config) (fst (snd ?sel)) = [100, 75]" by code_simp
  from active_set_round [OF _ _ _ h4 h5, of WebPDataInit] sel_ok fq sl new qs
  show ?thesis by simp
qed

subsection \<open>AnimData2PSNR\<close>

lemma psnr_loop_length:
  "psnr_loop lib os ns j acc = Some ps \<Longrightarrow> length ps \<le> length acc + length os"
  by (induction os arbitrary: j acc) (fastforce simp: Let_def split: if_splits option.splits)+

lemma psnr_loop_values:
  "psnr_loop lib os ns j acc = Some ps \<Longrightarrow> length ps = length acc + length os \<Longrightarrow>
   ps = acc @ map (\<lambda>(original, k). the (WebPPictureDistortion lib (frame_pic original)
                                            (frame_pic (ns ! k))))
              (zip os (matched_indices (map timestamp os) (map timestamp ns) j))"
proof (induction os arbitrary: j acc)
  case Nil
  then show ?case by simp
next
  case (Cons original rest)
  define j1 where "j1 = (if j + 1 < length ns \<and> timestamp (ns ! (j + 1)) = timestamp original
                         then j + 1 else j)"
  have mi: "matched_indices (map timestamp (original # rest)) (map timestamp ns) j
      = j1 # matched_indices (map timestamp rest) (map timestamp ns) j1"
    by (auto simp: j1_def Let_def)
  from Cons.prems(1) have inr: "j1 < length ns"
    by (auto simp: j1_def Let_def split: if_splits)
  show ?case
  proof (cases "WebPPictureDistortion lib (frame_pic original) (frame_pic (ns ! j1))")
    case None
    with Cons.prems(1) inr have "ps = acc" by (auto simp: j1_def Let_def split: if_splits)
    with Cons.prems(2) show ?thesis by simp
  next
    case (Some v)
    with Cons.prems(1) inr have rec: "psnr_loop lib rest ns j1 (acc @ [v]) = Some ps"
      by (auto simp: j1_def Let_def split: if_splits)
    from Cons.IH [OF rec] Cons.prems(2) Some mi show ?thesis by simp
  qed
qed

lemma sorted_hd_Min: "sorted xs \<Longrightarrow> xs \<noteq> [] \<Longrightarrow> hd xs = Min (set xs)"
  by (cases xs) (auto intro!: Min_eqI [symmetric])

lemma sorted_last_Max: "sorted xs \<Longrightarrow> xs \<noteq> [] \<Longrightarrow> last xs = Max (set xs)"
  by (induction xs) (auto simp: max_def intro!: Max_eqI [symmetric] dest: last_in_set)

lemma record_statistics_values:
  assumes "psnr s \<noteq> []"
  shows "psnr (record_statistics lib n s) = psnr s
         \<and> min_psnr (record_statistics lib n s) = Min (set (psnr s))
         \<and> max_psnr (record_statistics lib n s) = Max (set (psnr s))
         \<and> mean_psnr (record_statistics lib n s)
             = FloatNarrow lib (DoubleRound lib (accumulate lib (sort (psnr s)) / real n))
         \<and> median_psnr (record_statistics lib n s) = sort (psnr s) ! (n div 2)"
proof -
  have ne: "sort (psnr s) \<noteq> []" using assms by (metis length_0_conv length_sort)
  with sorted_hd_Min [OF sorted_sort ne] sorted_last_Max [OF sorted_sort ne]
  show ?thesis by (simp add: record_statistics_def Let_def)
qed

lemma accumulate_exact:
  "(\<And>x. DoubleRound lib x = x) \<Longrightarrow> accumulate lib xs = sum_list xs"
proof -
  assume exact: "\<And>x. DoubleRound lib x = x"
  have "foldl (\<lambda>acc x. DoubleRound lib (acc + x)) a xs = a + sum_list xs" for a
    by (induction xs arbitrary: a) (simp_all add: exact)
  from this [of 0] show ?thesis by (simp add: accumulate_def)
qed

text \<open>
  C8, as the code has it: for a non-empty sequence of original frames and a \<^verbatim>\<open>stats\<close> whose
  \<^verbatim>\<open>psnr\<close> vector is empty when the function is called, \<^verbatim>\<open>AnimData2PSNR\<close> advances its index
  into the decoded frames only when the next decoded frame's timestamp equals the timestamp
  of the current original frame; the status it returns is not \<^verbatim>\<open>kOk\<close> if and only if the
  number of PSNR values measured differs from the number of original frames; and on \<^verbatim>\<open>kOk\<close>
  the stats hold one PSNR-all value for each original frame, measured against the decoded
  frame it is matched with, and their minimum, maximum, mean and median, the median being the
  element at index \<open>n div 2\<close> of the sorted values, and the mean the sum of the sorted values,
  accumulated in a \<^verbatim>\<open>double\<close>, divided by \<open>n\<close> and stored in a \<^verbatim>\<open>float\<close>: the mean of the
  values when this arithmetic is exact on them.
\<close>

theorem psnr_statistics:
  assumes "original_frames \<noteq> []" and "psnr s = []"
    and "AnimData2PSNR lib original_frames webp_data (Some s) = (Returned r, Some s1)"
  shows "((r \<noteq> kOk_utils) = (length (psnr s1) \<noteq> length original_frames))
         \<and> (r = kOk_utils \<longrightarrow>
              (\<exists>new_frames. AnimData2Frames lib webp_data [] = (kOk_utils, new_frames)
                 \<and> psnr s1
                     = map (\<lambda>(original, k).
                              the (WebPPictureDistortion lib (frame_pic original)
                                     (frame_pic (new_frames ! k))))
                         (zip original_frames
                            (matched_indices (map timestamp original_frames)
                               (map timestamp new_frames) 0)))
              \<and> min_psnr s1 = Min (set (psnr s1))
              \<and> max_psnr s1 = Max (set (psnr s1))
              \<and> mean_psnr s1
                  = FloatNarrow lib
                      (DoubleRound lib
                         (accumulate lib (sort (psnr s1)) / real (length original_frames)))
              \<and> ((\<forall>x. DoubleRound lib x = x) \<and> (\<forall>x. FloatNarrow lib x = x)
                   \<longrightarrow> mean_psnr s1 = sum_list (psnr s1) / real (length original_frames))
              \<and> median_psnr s1 = sort (psnr s1) ! (length original_frames div 2))"
proof -
  obtain e new_frames where dec: "AnimData2Frames lib webp_data [] = (e, new_frames)"
    by (cases "AnimData2Frames lib webp_data []") auto
  have count: "(r \<noteq> kOk_utils) = (length (psnr s1) \<noteq> length original_frames)"
  proof (cases "e = kOk_utils")
    case False
    with assms dec show ?thesis
      by (cases e) (auto simp: AnimData2PSNR_def)
  next
    case True
    with assms dec obtain psnrs where
      loop: "psnr_loop lib original_frames new_frames 0 [] = Some psnrs"
      by (auto simp: AnimData2PSNR_def split: option.splits)
    from assms dec True loop show ?thesis
      using record_statistics_values [of "s\<lparr>psnr := psnrs\<rparr>" lib "length original_frames"]
      by (auto simp: AnimData2PSNR_def split: if_splits)
  qed
  have on_ok: "(\<exists>new_frames. AnimData2Frames lib webp_data [] = (kOk_utils, new_frames)
                 \<and> psnr s1
                     = map (\<lambda>(original, k).
                              the (WebPPictureDistortion lib (frame_pic original)
                                     (frame_pic (new_frames ! k))))
                         (zip original_frames
                            (matched_indices (map timestamp original_frames)
                               (map timestamp new_frames) 0)))
              \<and> min_psnr s1 = Min (set (psnr s1))
              \<and> max_psnr s1 = Max (set (psnr s1))
              \<and> mean_psnr s1
                  = FloatNarrow lib
                      (DoubleRound lib
                         (accumulate lib (sort (psnr s1)) / real (length original_frames)))
              \<and> ((\<forall>x. DoubleRound lib x = x) \<and> (\<forall>x. FloatNarrow lib x = x)
                   \<longrightarrow> mean_psnr s1 = sum_list (psnr s1) / real (length original_frames))
              \<and> median_psnr s1 = sort (psnr s1) ! (length original_frames div 2)"
    if r: "r = kOk_utils"
  proof -
    from r assms dec have e: "e = kOk_utils"
      by (cases e) (auto simp: AnimData2PSNR_def)
    with assms dec obtain psnrs where
      loop: "psnr_loop lib original_frames new_frames 0 [] = Some psnrs"
      by (auto simp: AnimData2PSNR_def split: option.splits)
    from assms dec e loop r have len: "length psnrs = length original_frames"
      and ne: "psnrs \<noteq> []"
      and s1: "s1 = record_statistics lib (length original_frames) (s\<lparr>psnr := psnrs\<rparr>)"
      by (auto simp: AnimData2PSNR_def split: if_splits)
    from psnr_loop_values [OF loop] len
    have vals: "psnrs = map (\<lambda>(original, k).
                              the (WebPPictureDistortion lib (frame_pic original)
                                     (frame_pic (new_frames ! k))))
                      (zip original_frames
                         (matched_indices (map timestamp original_frames)
                            (map timestamp new_frames) 0))"
      by simp
    from record_statistics_values [of "s\<lparr>psnr := psnrs\<rparr>" lib "length original_frames"] ne s1
    have st: "psnr s1 = psnrs" "min_psnr s1 = Min (set psnrs)" "max_psnr s1 = Max (set psnrs)"
      "mean_psnr s1 = FloatNarrow lib
          (DoubleRound lib (accumulate lib (sort psnrs) / real (length original_frames)))"
      "median_psnr s1 = sort psnrs ! (length original_frames div 2)"
      by simp_all
    have exact: "mean_psnr s1 = sum_list psnrs / real (length original_frames)"
      if "(\<forall>x. DoubleRound lib x = x) \<and> (\<forall>x. FloatNarrow lib x = x)"
    proof -
      from that have "accumulate lib (sort psnrs) = sum_list (sort psnrs)"
        by (intro accumulate_exact) simp
      also have "\<dots> = sum_list psnrs" by (metis mset_sort sum_mset_sum_list)
      finally show ?thesis using st(4) that by simp
    qed
    from dec e vals st exact show ?thesis by simp
  qed
  from count on_ok show ?thesis by blast
qed

theorem psnr_statistics_example:
  "example_originals \<noteq> [] \<and> psnr empty_stats = []
   \<and> matched_indices (map timestamp example_originals) [0, 20] 0 = [0, 0, 1]
   \<and> AnimData2PSNR example_library example_originals WebPDataInit (Some empty_stats)
       = (Returned kOk_utils,
          Some \<lparr>psnr = [21, 41, 52], min_psnr = 21, max_psnr = 52, mean_psnr = 38,
                median_psnr = 41\<rparr>)
   \<and> ((kOk_utils \<noteq> kOk_utils) = (length [21, 41, 52 :: real] \<noteq> length example_originals))
   \<and> Min (set [21, 41, 52 :: real]) = 21 \<and> Max (set [21, 41, 52 :: real]) = 52
   \<and> accumulate example_library (sort [21, 41, 52]) = 114
   \<and> sum_list [21, 41, 52 :: real] / real (length example_originals) = 38
   \<and> sort [21, 41, 52 :: real] ! (length example_originals div 2) = 41"
proof -
  have h1: "example_originals \<noteq> []" by (simp add: example_originals_def)
  have h2: "psnr empty_stats = []" by (simp add: empty_stats_def)
  have mi: "matched_indices (map timestamp example_originals) [0, 20] 0 = [0, 0, 1]"
    by code_simp
  have h3: "AnimData2PSNR example_library example_originals WebPDataInit (Some empty_stats)
       = (Returned kOk_utils,
          Some \<lparr>psnr = [21, 41, 52], min_psnr = 21, max_psnr = 52, mean_psnr = 38,
                median_psnr = 41\<rparr>)"
    by code_simp
  have acc: "accumulate example_library (sort [21, 41, 52]) = 114" by code_simp
  have len: "length example_originals = 3" by (simp add: example_originals_def)
  from psnr_statistics [OF h1 h2 h3] h1 h2 h3 mi acc len show ?thesis by simp
qed

text \<open>
  A call with a \<^verbatim>\<open>stats\<close> that already holds a value: the PSNR of the third original frame
  cannot be measured, two values are appended to the one that was there, and the call
  returns \<^verbatim>\<open>kOk\<close> with three values for three original frames, the first of which is no
  measurement of this call.
\<close>

theorem reused_stats_hide_a_failure:
  "psnr used_stats = [10]
   \<and> WebPPictureDistortion failing_library 5 2 = None
   \<and> AnimData2PSNR failing_library example_originals WebPDataInit (Some used_stats)
       = (Returned kOk_utils,
          Some \<lparr>psnr = [10, 21, 41], min_psnr = 10, max_psnr = 41, mean_psnr = 24,
                median_psnr = 21\<rparr>)
   \<and> AnimData2PSNR example_library example_originals WebPDataInit (Some used_stats)
       = (Returned kGenericError,
          Some \<lparr>psnr = [10, 21, 41, 52], min_psnr = 10, max_psnr = 10, mean_psnr = 10,
                median_psnr = 10\<rparr>)"
  by code_simp

subsection \<open>The scan of LossyEncodeNoSlopeOptim\<close>

declare noslope_search.simps [simp del]

lemma noslope_search_result:
  assumes "noslope_search ext budget n lo hi anim frame = (r, anim1, frame1)"
  shows "(final_quality frame1 = final_quality frame
            \<or> (lo \<le> final_quality frame1 \<and> final_quality frame1 \<le> hi))
         \<and> anim1 = anim - encoded_size frame + encoded_size frame1
         \<and> final_psnr frame \<le> final_psnr frame1
         \<and> pic frame1 = pic frame \<and> timestamp_ms frame1 = timestamp_ms frame
         \<and> lossless (config frame1) = lossless (config frame)"
  using assms
proof (induction "nat (hi - lo + 1)" arbitrary: lo hi anim frame rule: less_induct)
  case less
  show ?case
  proof (cases "lo \<le> hi")
    case False
    with less.prems show ?thesis by (subst (asm) noslope_search.simps) simp
  next
    case True
    define mid where "mid = c_div (lo + hi) 2"
    from c_div_mid [OF True] have mid: "lo \<le> mid" "mid \<le> hi" by (simp_all add: mid_def)
    obtain res f1 where gs: "GetPictureStats ext (set_quality mid frame) = (res, f1)"
      by (cases "GetPictureStats ext (set_quality mid frame)") auto
    from GetPictureStats_fields [OF gs] obtain c where
      f1: "f1 = (set_quality mid frame)\<lparr>lossy_data := c\<rparr>" by blast
    have f1s: "final_quality f1 = final_quality frame" "encoded_size f1 = encoded_size frame"
      "final_psnr f1 = final_psnr frame" "pic f1 = pic frame"
      "timestamp_ms f1 = timestamp_ms frame" "lossless (config f1) = lossless (config frame)"
      by (simp_all add: f1 set_quality_def)
    show ?thesis
    proof (cases res)
      case (Stop e)
      with less.prems True gs have "anim1 = anim" "frame1 = f1"
        by (subst (asm) noslope_search.simps; simp add: mid_def [symmetric])+
      with f1s show ?thesis by simp
    next
      case (Val v)
      obtain new_size new_psnr where v: "v = (new_size, new_psnr)" by (cases v)
      let ?improves = "final_psnr f1 < new_psnr \<or>
          (new_psnr = final_psnr f1 \<and> new_size \<le> encoded_size f1)"
      let ?within = "float_le (int_to_float ext (new_size - encoded_size f1))
          (int_to_float ext (c_div (budget - anim) n))"
      from less.prems True gs Val v have unfold:
        "(if ?improves then
            (if n = 0 then (Undefined, anim, f1)
             else if ?within then
               noslope_search ext budget n (mid + 1) hi (anim - encoded_size f1 + new_size)
                 (f1\<lparr>encoded_size := new_size, final_psnr := new_psnr,
                     final_quality := mid, near_lossless := False\<rparr>)
             else noslope_search ext budget n lo (mid - 1) anim f1)
          else noslope_search ext budget n (mid + 1) hi anim f1) = (r, anim1, frame1)"
        apply (subst (asm) noslope_search.simps)
        apply (unfold Let_def mid_def [symmetric])
        apply (simp only: if_True prod.case Res.case)
        done
      consider (undef) "?improves" "n = 0"
        | (accept) "?improves" "n \<noteq> 0" "?within"
        | (too_big) "?improves" "n \<noteq> 0" "\<not> ?within"
        | (no_gain) "\<not> ?improves"
        by blast
      then show ?thesis
      proof cases
        case undef
        with unfold have "anim1 = anim" "frame1 = f1" by simp_all
        with f1s show ?thesis by simp
      next
        case accept
        let ?f2 = "f1\<lparr>encoded_size := new_size, final_psnr := new_psnr,
                     final_quality := mid, near_lossless := False\<rparr>"
        from accept unfold have rec:
          "noslope_search ext budget n (mid + 1) hi (anim - encoded_size f1 + new_size) ?f2
             = (r, anim1, frame1)" by simp
        have "nat (hi - (mid + 1) + 1) < nat (hi - lo + 1)" using mid True by simp
        note IH = less.hyps [OF this rec]
        from IH mid f1s accept(1) show ?thesis by auto
      next
        case too_big
        with unfold have rec: "noslope_search ext budget n lo (mid - 1) anim f1 = (r, anim1, frame1)"
          by simp
        have "nat (mid - 1 - lo + 1) < nat (hi - lo + 1)" using mid True by simp
        note IH = less.hyps [OF this rec]
        from IH mid f1s show ?thesis by auto
      next
        case no_gain
        with unfold have rec: "noslope_search ext budget n (mid + 1) hi anim f1 = (r, anim1, frame1)"
          by simp
        have "nat (hi - (mid + 1) + 1) < nat (hi - lo + 1)" using mid True by simp
        note IH = less.hyps [OF this rec]
        from IH mid f1s show ?thesis by auto
      qed
    qed
  qed
qed



lemma noslope_scan_result:
  assumes "noslope_scan ext budget n anim fs = (r, anim1, fs1)"
  shows "list_all2 (\<lambda>f f1.
             (final_quality f1 = final_quality f
                \<or> (noslope_min_quality f \<le> final_quality f1
                     \<and> final_quality f1 \<le> noslope_max_quality f))
             \<and> final_psnr f \<le> final_psnr f1
             \<and> pic f1 = pic f \<and> timestamp_ms f1 = timestamp_ms f) fs fs1
         \<and> anim1 = anim + sum_list (map encoded_size fs1) - sum_list (map encoded_size fs)"
  using assms
proof (induction fs arbitrary: n anim r anim1 fs1)
  case Nil
  then show ?case by simp
next
  case (Cons frame rest)
  let ?f0 = "frame\<lparr>config := (config frame)\<lparr>lossless := False\<rparr>\<rparr>"
  obtain r0 a0 f0 where s: "noslope_search ext budget n (noslope_min_quality frame)
      (noslope_max_quality frame) anim ?f0 = (r0, a0, f0)"
    by (metis prod.collapse)
  note sr = noslope_search_result [OF s]
  show ?case
  proof (cases "r0 = ok")
    case True
    obtain r1 a1 rest1 where rec: "noslope_scan ext budget (n - 1) a0 rest = (r1, a1, rest1)"
      by (metis prod.collapse)
    from Cons.prems s True rec have res: "r = r1" "anim1 = a1" "fs1 = f0 # rest1" by auto
    from Cons.IH [OF rec] sr res show ?thesis by auto
  next
    case False
    with Cons.prems s have res: "r = r0" "anim1 = a0" "fs1 = f0 # rest"
      by (auto split: Outcome.splits Status.splits)
    have "list_all2 (\<lambda>f f1.
             (final_quality f1 = final_quality f
                \<or> (noslope_min_quality f \<le> final_quality f1
                     \<and> final_quality f1 \<le> noslope_max_quality f))
             \<and> final_psnr f \<le> final_psnr f1
             \<and> pic f1 = pic f \<and> timestamp_ms f1 = timestamp_ms f) rest rest"
      by (simp add: list_all2_same)
    with sr res show ?thesis by auto
  qed
qed





subsection \<open>The final quality of a frame through the passes\<close>

declare extra_search.simps [simp del]

lemma map_update_same:
  "f y = f (xs ! i) \<Longrightarrow> map f (xs[i := y]) = map f xs"
proof (cases "i < length xs")
  case True
  then show ?thesis if "f y = f (xs ! i)" using that by (simp add: map_update list_update_same_conv)
next
  case False
  then show ?thesis if "f y = f (xs ! i)" by (simp add: list_update_beyond)
qed

lemma map_eq_nth: "map f xs = map f ys \<Longrightarrow> i < length xs \<Longrightarrow> f (xs ! i) = f (ys ! i)"
  by (metis length_map nth_map)

lemma le_update:
  "list_all2 (\<le>) (map f xs) (map f ys) \<Longrightarrow> length ys = length xs \<Longrightarrow>
   (f (ys ! i) :: int) \<le> f y \<Longrightarrow> list_all2 (\<le>) (map f xs) (map f (ys[i := y]))"
proof -
  assume all: "list_all2 (\<le>) (map f xs) (map f ys)" and len: "length ys = length xs"
    and le: "f (ys ! i) \<le> f y"
  have "f (xs ! k) \<le> f (ys[i := y] ! k)" if k: "k < length xs" for k
  proof (cases "k = i")
    case True
    from all k len have "f (xs ! k) \<le> f (ys ! k)" by (simp add: list_all2_conv_all_nth)
    with True le k len show ?thesis by simp
  next
    case False
    from all k len have "f (xs ! k) \<le> f (ys ! k)" by (simp add: list_all2_conv_all_nth)
    with False show ?thesis by simp
  qed
  with len show ?thesis by (simp add: list_all2_conv_all_nth)
qed

lemma select_active_final_quality:
  "select_active ext lo hi mid limit optim_list fs acc = (r, fs1, new_list) \<Longrightarrow>
   map final_quality fs1 = map final_quality fs"
proof (induction optim_list arbitrary: fs acc)
  case Nil
  then show ?case by simp
next
  case (Cons i rest)
  obtain res f1 where cs: "ComputeSlope ext lo hi (fs ! i) = (res, f1)"
    by (cases "ComputeSlope ext lo hi (fs ! i)") auto
  note fq = ComputeSlope_final_quality [OF cs]
  have u1: "map final_quality (fs[i := f1]) = map final_quality fs"
    using fq by (rule map_update_same)
  have u2: "map final_quality (fs[i := set_quality mid f1]) = map final_quality fs"
    using fq by (intro map_update_same) (simp add: set_quality_def)
  show ?case
  proof (cases res)
    case (Stop e)
    with Cons.prems cs u1 show ?thesis by simp
  next
    case (Val s)
    with Cons.prems cs Cons.IH u1 u2 show ?thesis by (auto split: if_splits)
  qed
qed

lemma commit_quality_nth:
  "length (commit_quality mid new_list fs) = length fs
   \<and> (\<forall>i < length fs. final_quality (commit_quality mid new_list fs ! i)
         = (if i \<in> set new_list then mid else final_quality (fs ! i)))"
  unfolding commit_quality_def
proof (induction new_list arbitrary: fs)
  case Nil
  then show ?case by simp
next
  case (Cons j rest)
  let ?fs1 = "fs[j := (fs ! j)\<lparr>final_quality := mid\<rparr>]"
  have len: "length ?fs1 = length fs" by simp
  have nth: "final_quality (?fs1 ! i) = (if i = j then mid else final_quality (fs ! i))"
    if "i < length fs" for i
    using that by (simp add: nth_list_update)
  from Cons [of ?fs1] len nth show ?case by simp
qed

lemma slope_optim_loop_range:
  assumes "slope_optim_loop ext limit lo hi optim_list st wd = (r, st1, wd1)"
    and "list_all (\<lambda>f. final_quality f < lo) (frames st)"
  shows "list_all2 (\<lambda>f f1. final_quality f1 = final_quality f
                      \<or> (lo \<le> final_quality f1 \<and> final_quality f1 \<le> hi))
           (frames st) (frames st1)"
  using assms
proof (induction "nat (hi - lo + 1)" arbitrary: lo hi optim_list st wd rule: less_induct)
  case less
  let ?P = "\<lambda>lo hi. (\<lambda>f f1. final_quality f1 = final_quality f
                      \<or> (lo \<le> final_quality f1 \<and> final_quality f1 \<le> (hi :: int)))"
  show ?case
  proof (cases "lo \<le> hi \<and> optim_list \<noteq> []")
    case False
    with less.prems(1) have "st1 = st" by (subst (asm) slope_optim_loop.simps) auto
    then show ?thesis by (simp add: list_all2_same)
  next
    case True
    define mid where "mid = c_div (lo + hi) 2"
    from c_div_mid [of lo hi] True have mid: "lo \<le> mid" "mid \<le> hi" by (simp_all add: mid_def)
    obtain r0 fs new_list where sel:
      "select_active ext lo hi mid limit optim_list (frames st) [] = (r0, fs, new_list)"
      by (metis prod.collapse)
    note fqs = select_active_final_quality [OF sel]
    then have len: "length fs = length (frames st)" by (metis length_map)
    have same: "list_all2 (?P lo hi) (frames st) fs"
      using len map_eq_nth [OF fqs] by (simp add: list_all2_conv_all_nth)
    from less.prems(1) True sel have unfold:
      "(case (r0, fs, new_list) of
           (Returns kOk, fs, new_optim_list) \<Rightarrow>
             if new_optim_list = [] then (ok, st\<lparr>frames := fs\<rparr>, wd)
             else
               (case GenerateAnimationNoBudget ext (st\<lparr>frames := fs\<rparr>) of
                  Stop e \<Rightarrow> (e, st\<lparr>frames := fs\<rparr>, wd)
                | Val new_webp_data \<Rightarrow>
                    if size_le_budget (data_size new_webp_data) (byte_budget st) then
                      slope_optim_loop ext limit (mid + 1) hi
                        new_optim_list
                        (st\<lparr>frames := commit_quality mid new_optim_list fs\<rparr>)
                        new_webp_data
                    else
                      slope_optim_loop ext limit lo (mid - 1)
                        new_optim_list (st\<lparr>frames := fs\<rparr>) wd)
         | (e, fs, new_optim_list) \<Rightarrow> (e, st\<lparr>frames := fs\<rparr>, wd)) = (r, st1, wd1)"
      apply (subst (asm) slope_optim_loop.simps)
      apply (unfold Let_def mid_def [symmetric])
      apply (simp only: if_True simp_thms)
      done
    show ?thesis
    proof (cases "r0 = ok \<and> new_list \<noteq> []")
      case False
      with unfold have "frames st1 = fs"
        by (auto split: Outcome.splits Status.splits if_splits)
      with same show ?thesis by simp
    next
      case go: True
      show ?thesis
      proof (cases "GenerateAnimationNoBudget ext (st\<lparr>frames := fs\<rparr>)")
        case (Stop e)
        with unfold go have "frames st1 = fs" by auto
        with same show ?thesis by simp
      next
        case (Val d)
        show ?thesis
        proof (cases "size_le_budget (data_size d) (byte_budget st)")
          case fits: True
          let ?fs2 = "commit_quality mid new_list fs"
          from unfold go Val fits have rec:
            "slope_optim_loop ext limit (mid + 1) hi new_list (st\<lparr>frames := ?fs2\<rparr>) d
               = (r, st1, wd1)" by auto
          note cq = commit_quality_nth [of mid new_list fs]
          have inv: "list_all (\<lambda>f. final_quality f < mid + 1) (frames (st\<lparr>frames := ?fs2\<rparr>))"
          proof -
            have "\<forall>i < length ?fs2. final_quality (?fs2 ! i) < mid + 1"
            proof (intro allI impI)
              fix i assume "i < length ?fs2"
              with cq have i: "i < length fs" by simp
              with len less.prems(2) have "final_quality (frames st ! i) < lo"
                by (simp add: list_all_length)
              moreover from fqs i len have "final_quality (fs ! i) = final_quality (frames st ! i)"
                by (metis nth_map)
              ultimately show "final_quality (?fs2 ! i) < mid + 1" using cq i mid by auto
            qed
            then show ?thesis by (simp add: list_all_length)
          qed
          have "nat (hi - (mid + 1) + 1) < nat (hi - lo + 1)" using mid True by simp
          note IH = less.hyps [OF this rec inv]
          have step: "list_all2 (?P lo hi) (frames st) ?fs2"
          proof -
            have "\<forall>i < length fs. ?P lo hi (frames st ! i) (?fs2 ! i)"
            proof (intro allI impI)
              fix i assume i: "i < length fs"
              from fqs i len have "final_quality (fs ! i) = final_quality (frames st ! i)"
                by (metis nth_map)
              with cq i mid show "?P lo hi (frames st ! i) (?fs2 ! i)" by auto
            qed
            with cq len show ?thesis by (simp add: list_all2_conv_all_nth)
          qed
          from IH have "list_all2 (?P (mid + 1) hi) ?fs2 (frames st1)" by simp
          with step show ?thesis
            by (rule list_all2_trans [rotated]) (use mid in auto)
        next
          case nofit: False
          from unfold go Val nofit have rec:
            "slope_optim_loop ext limit lo (mid - 1) new_list (st\<lparr>frames := fs\<rparr>) wd
               = (r, st1, wd1)" by auto
          have inv: "list_all (\<lambda>f. final_quality f < lo) (frames (st\<lparr>frames := fs\<rparr>))"
          proof -
            have "\<forall>i < length fs. final_quality (fs ! i) < lo"
            proof (intro allI impI)
              fix i assume i: "i < length fs"
              from fqs i len have "final_quality (fs ! i) = final_quality (frames st ! i)"
                by (metis nth_map)
              with less.prems(2) i len show "final_quality (fs ! i) < lo"
                by (simp add: list_all_length)
            qed
            then show ?thesis by (simp add: list_all_length)
          qed
          have "nat (mid - 1 - lo + 1) < nat (hi - lo + 1)" using mid True by simp
          note IH = less.hyps [OF this rec inv]
          from IH have "list_all2 (?P lo (mid - 1)) fs (frames st1)" by simp
          with same show ?thesis
            by (rule list_all2_trans [rotated]) (use mid in auto)
        qed
      qed
    qed
  qed
qed

lemma slope_optim_loop_cases [consumes 1, case_names stop fail empty asm_fail fit nofit]:
  assumes run: "slope_optim_loop ext limit lo hi optim_list st wd = (r, st1, wd1)"
  obtains
    (stop) "\<not> (lo \<le> hi \<and> optim_list \<noteq> [])" "r = ok" "st1 = st" "wd1 = wd"
  | (fail) e fs new_list where "lo \<le> hi"
      "select_active ext lo hi (c_div (lo + hi) 2) limit optim_list (frames st) []
         = (e, fs, new_list)"
      "e \<noteq> ok" "r = e" "st1 = st\<lparr>frames := fs\<rparr>" "wd1 = wd"
  | (empty) fs where "lo \<le> hi"
      "select_active ext lo hi (c_div (lo + hi) 2) limit optim_list (frames st) []
         = (ok, fs, [])"
      "r = ok" "st1 = st\<lparr>frames := fs\<rparr>" "wd1 = wd"
  | (asm_fail) e fs new_list where "lo \<le> hi"
      "select_active ext lo hi (c_div (lo + hi) 2) limit optim_list (frames st) []
         = (ok, fs, new_list)"
      "GenerateAnimationNoBudget ext (st\<lparr>frames := fs\<rparr>) = Stop e"
      "r = e" "st1 = st\<lparr>frames := fs\<rparr>" "wd1 = wd"
  | (fit) fs new_list d where "lo \<le> hi"
      "select_active ext lo hi (c_div (lo + hi) 2) limit optim_list (frames st) []
         = (ok, fs, new_list)"
      "new_list \<noteq> []"
      "GenerateAnimationNoBudget ext (st\<lparr>frames := fs\<rparr>) = Val d"
      "size_le_budget (data_size d) (byte_budget st)"
      "slope_optim_loop ext limit (c_div (lo + hi) 2 + 1) hi new_list
         (st\<lparr>frames := commit_quality (c_div (lo + hi) 2) new_list fs\<rparr>) d = (r, st1, wd1)"
  | (nofit) fs new_list d where "lo \<le> hi"
      "select_active ext lo hi (c_div (lo + hi) 2) limit optim_list (frames st) []
         = (ok, fs, new_list)"
      "new_list \<noteq> []"
      "GenerateAnimationNoBudget ext (st\<lparr>frames := fs\<rparr>) = Val d"
      "\<not> size_le_budget (data_size d) (byte_budget st)"
      "slope_optim_loop ext limit lo (c_div (lo + hi) 2 - 1) new_list
         (st\<lparr>frames := fs\<rparr>) wd = (r, st1, wd1)"
proof (cases "lo \<le> hi \<and> optim_list \<noteq> []")
  case False
  with run have "r = ok" "st1 = st" "wd1 = wd"
    by (subst (asm) slope_optim_loop.simps; simp)+
  with False show ?thesis by (rule stop)
next
  case True
  define mid where "mid = c_div (lo + hi) 2"
  obtain r0 fs new_list where sel:
    "select_active ext lo hi mid limit optim_list (frames st) [] = (r0, fs, new_list)"
    by (metis prod.collapse)
  from run True sel have unfold:
    "(case (r0, fs, new_list) of
         (Returns kOk, fs, new_optim_list) \<Rightarrow>
           if new_optim_list = [] then (ok, st\<lparr>frames := fs\<rparr>, wd)
           else
             (case GenerateAnimationNoBudget ext (st\<lparr>frames := fs\<rparr>) of
                Stop e \<Rightarrow> (e, st\<lparr>frames := fs\<rparr>, wd)
              | Val new_webp_data \<Rightarrow>
                  if size_le_budget (data_size new_webp_data) (byte_budget st) then
                    slope_optim_loop ext limit (mid + 1) hi
                      new_optim_list
                      (st\<lparr>frames := commit_quality mid new_optim_list fs\<rparr>)
                      new_webp_data
                  else
                    slope_optim_loop ext limit lo (mid - 1)
                      new_optim_list (st\<lparr>frames := fs\<rparr>) wd)
       | (e, fs, new_optim_list) \<Rightarrow> (e, st\<lparr>frames := fs\<rparr>, wd)) = (r, st1, wd1)"
    apply (subst (asm) slope_optim_loop.simps)
    apply (unfold Let_def mid_def [symmetric])
    apply (simp only: if_True simp_thms)
    done
  show ?thesis
  proof (cases "r0 = ok")
    case False
    with unfold have "r = r0" "st1 = st\<lparr>frames := fs\<rparr>" "wd1 = wd"
      by (simp_all split: Outcome.splits Status.splits)
    with True sel False show ?thesis unfolding mid_def by (intro fail) auto
  next
    case ok0: True
    show ?thesis
    proof (cases "new_list = []")
      case True
      with unfold ok0 have "r = ok" "st1 = st\<lparr>frames := fs\<rparr>" "wd1 = wd" by simp_all
      with \<open>lo \<le> hi \<and> optim_list \<noteq> []\<close> sel ok0 True show ?thesis
        unfolding mid_def by (intro empty) auto
    next
      case ne: False
      show ?thesis
      proof (cases "GenerateAnimationNoBudget ext (st\<lparr>frames := fs\<rparr>)")
        case (Stop e)
        with unfold ok0 ne have "r = e" "st1 = st\<lparr>frames := fs\<rparr>" "wd1 = wd" by simp_all
        with True sel ok0 Stop show ?thesis unfolding mid_def by (intro asm_fail) auto
      next
        case (Val d)
        show ?thesis
        proof (cases "size_le_budget (data_size d) (byte_budget st)")
          case fits: True
          with unfold ok0 ne Val have
            "slope_optim_loop ext limit (mid + 1) hi new_list
               (st\<lparr>frames := commit_quality mid new_list fs\<rparr>) d = (r, st1, wd1)" by simp
          with True sel ok0 ne Val fits show ?thesis unfolding mid_def by (intro fit) auto
        next
          case nf: False
          with unfold ok0 ne Val have
            "slope_optim_loop ext limit lo (mid - 1) new_list (st\<lparr>frames := fs\<rparr>) wd
               = (r, st1, wd1)" by simp
          with True sel ok0 ne Val nf show ?thesis unfolding mid_def by (intro nofit) auto
        qed
      qed
    qed
  qed
qed

lemma slope_optim_loop_data:
  assumes "slope_optim_loop ext limit lo hi optim_list st wd = (r, st1, wd1)"
  shows "byte_budget st1 = byte_budget st
         \<and> minimum_lossy_quality st1 = minimum_lossy_quality st
         \<and> (wd1 = wd \<or> size_le_budget (data_size wd1) (byte_budget st))"
  using assms
proof (induction "nat (hi - lo + 1)" arbitrary: lo hi optim_list st wd rule: less_induct)
  case less
  from less.prems show ?case
  proof (cases rule: slope_optim_loop_cases)
    case (fit fs new_list d)
    from c_div_mid [OF fit(1)] have "nat (hi - (c_div (lo + hi) 2 + 1) + 1) < nat (hi - lo + 1)"
      using fit(1) by simp
    from less.hyps [OF this fit(6)] fit(5) show ?thesis by auto
  next
    case (nofit fs new_list d)
    from c_div_mid [OF nofit(1)] have "nat (c_div (lo + hi) 2 - 1 - lo + 1) < nat (hi - lo + 1)"
      using nofit(1) by simp
    from less.hyps [OF this nofit(6)] show ?thesis by auto
  qed simp_all
qed


declare threshold_search.simps [simp del]

lemma GetPictureStats_final_quality:
  "GetPictureStats ext frame = (r, frame1) \<Longrightarrow> final_quality frame1 = final_quality frame"
  by (drule GetPictureStats_fields) auto

lemma threshold_search_final_quality:
  assumes "threshold_search ext p100 s100 lo hi sl frame = (r, sl1, frame1)"
  shows "final_quality frame1 = final_quality frame"
  using assms
proof (induction "nat (hi - lo + 1)" arbitrary: lo hi sl frame rule: less_induct)
  case less
  show ?case
  proof (cases "lo \<le> hi")
    case False
    with less.prems show ?thesis by (subst (asm) threshold_search.simps) simp
  next
    case True
    define mid where "mid = c_div (lo + hi) 2"
    from c_div_mid [OF True] have mid: "lo \<le> mid" "mid \<le> hi" by (simp_all add: mid_def)
    obtain res f1 where gs: "GetPictureStats ext (set_quality mid frame) = (res, f1)"
      by (metis prod.collapse)
    from GetPictureStats_final_quality [OF gs]
    have f1: "final_quality f1 = final_quality frame" by (simp add: set_quality_def)
    show ?thesis
    proof (cases res)
      case (Stop e)
      with less.prems True gs have "frame1 = f1"
        by (subst (asm) threshold_search.simps) (simp add: mid_def [symmetric])
      with f1 show ?thesis by simp
    next
      case (Val v)
      obtain new_size new_psnr where v: "v = (new_size, new_psnr)" by (cases v)
      show ?thesis
      proof (cases "float_le (float_sub ext p100 new_psnr) (Fin 1)")
        case le: True
        with less.prems True gs Val v have rec:
          "threshold_search ext p100 s100 lo (mid - 1)
             (Some (float_div ext (float_sub ext p100 new_psnr)
                      (int_to_float ext (s100 - new_size)))) f1
           = (r, sl1, frame1)"
          by (subst (asm) threshold_search.simps) (simp add: mid_def [symmetric])
        have "nat (mid - 1 - lo + 1) < nat (hi - lo + 1)" using mid True by simp
        from less.hyps [OF this rec] f1 show ?thesis by simp
      next
        case gt: False
        with less.prems True gs Val v have rec:
          "threshold_search ext p100 s100 (mid + 1) hi sl f1 = (r, sl1, frame1)"
          by (subst (asm) threshold_search.simps) (simp add: mid_def [symmetric])
        have "nat (hi - (mid + 1) + 1) < nat (hi - lo + 1)" using mid True by simp
        from less.hyps [OF this rec] f1 show ?thesis by simp
      qed
    qed
  qed
qed

lemma frame_slope_final_quality:
  assumes "frame_slope ext frame = (r, sl, frame1)"
  shows "final_quality frame1 = final_quality frame"
proof -
  obtain res f1 where gs: "GetPictureStats ext (set_quality 100 frame) = (res, f1)"
    by (metis prod.collapse)
  from GetPictureStats_final_quality [OF gs]
  have f1: "final_quality f1 = final_quality frame" by (simp add: set_quality_def)
  show ?thesis
  proof (cases res)
    case (Stop e)
    with assms gs f1 show ?thesis by (simp add: frame_slope_def)
  next
    case (Val v)
    with assms gs have "threshold_search ext (snd v) (fst v) 0 100 None f1 = (r, sl, frame1)"
      by (cases v) (simp add: frame_slope_def)
    from threshold_search_final_quality [OF this] f1 show ?thesis by simp
  qed
qed

lemma collect_slopes_final_quality:
  "collect_slopes ext fs slopes = (r, slopes1, fs1)
     \<Longrightarrow> map final_quality fs1 = map final_quality fs"
proof (induction fs arbitrary: slopes r slopes1 fs1)
  case Nil
  then show ?case by simp
next
  case (Cons frame rest)
  obtain r0 sl f1 where fsl: "frame_slope ext frame = (r0, sl, f1)"
    by (metis prod.collapse)
  note fq = frame_slope_final_quality [OF fsl]
  show ?case
  proof (cases "r0 = ok \<and> sl \<noteq> None")
    case True
    then obtain s where s: "sl = Some s" by auto
    obtain r1 sl1 rest1 where rec: "collect_slopes ext rest (slopes @ [s]) = (r1, sl1, rest1)"
      by (metis prod.collapse)
    from Cons.prems fsl True s rec have "fs1 = f1 # rest1" by simp
    with Cons.IH [OF rec] fq show ?thesis by simp
  next
    case False
    with Cons.prems fsl have "fs1 = f1 # rest"
      by (auto split: Outcome.splits Status.splits option.splits)
    with fq show ?thesis by simp
  qed
qed

lemma FindMedianSlope_state:
  assumes "FindMedianSlope ext st = (res, st1)"
  shows "byte_budget st1 = byte_budget st
         \<and> minimum_lossy_quality st1 = minimum_lossy_quality st
         \<and> map final_quality (frames st1) = map final_quality (frames st)"
proof -
  obtain r slopes fs1 where cs: "collect_slopes ext (frames st) [] = (r, slopes, fs1)"
    by (metis prod.collapse)
  from assms cs have "st1 = st\<lparr>frames := fs1\<rparr>"
    by (auto simp: FindMedianSlope_def split: Outcome.splits Status.splits if_splits)
  with collect_slopes_final_quality [OF cs] show ?thesis by simp
qed

lemma final_stats_final_quality:
  "final_stats ext fs = (r, fs1) \<Longrightarrow> map final_quality fs1 = map final_quality fs"
proof (induction fs arbitrary: r fs1)
  case Nil
  then show ?case by simp
next
  case (Cons frame rest)
  obtain res f1 where gs:
    "GetPictureStats ext (set_quality (final_quality frame) frame) = (res, f1)"
    by (metis prod.collapse)
  from GetPictureStats_final_quality [OF gs]
  have f1: "final_quality f1 = final_quality frame" by (simp add: set_quality_def)
  show ?case
  proof (cases res)
    case (Stop e)
    with Cons.prems gs have "fs1 = f1 # rest" by auto
    with f1 show ?thesis by simp
  next
    case (Val v)
    obtain r1 rest1 where rec: "final_stats ext rest = (r1, rest1)" by (metis prod.collapse)
    from Cons.prems gs Val rec have
      "fs1 = f1\<lparr>encoded_size := fst v, final_psnr := snd v\<rparr> # rest1"
      by (cases v) simp
    with Cons.IH [OF rec] f1 show ?thesis by simp
  qed
qed

lemma LossyEncodeSlopeOptim_cases [consumes 1, case_names no_slope loop_stop stats]:
  assumes run: "LossyEncodeSlopeOptim ext st wd = (r, st3, wd3)"
  obtains
    (no_slope) e st1 where
      "FindMedianSlope ext (st\<lparr>frames := SortFrames ext (frames st)\<rparr>) = (Stop e, st1)"
      "r = e" "st3 = st1" "wd3 = wd"
  | (loop_stop) limit st1 where
      "FindMedianSlope ext (st\<lparr>frames := SortFrames ext (frames st)\<rparr>) = (Val limit, st1)"
      "slope_optim_loop ext limit (minimum_lossy_quality st1) 100
         [0..<length (frames st1)] st1 wd = (r, st3, wd3)"
      "r \<noteq> ok"
  | (stats) limit st1 st2 r3 fs where
      "FindMedianSlope ext (st\<lparr>frames := SortFrames ext (frames st)\<rparr>) = (Val limit, st1)"
      "slope_optim_loop ext limit (minimum_lossy_quality st1) 100
         [0..<length (frames st1)] st1 wd = (ok, st2, wd3)"
      "final_stats ext (frames st2) = (r3, fs)"
      "st3 = st2\<lparr>frames := fs\<rparr>"
      "r = (if r3 = ok then (if 0 < data_size wd3 then ok else Returns kByteBudgetError)
            else r3)"
proof -
  let ?st0 = "st\<lparr>frames := SortFrames ext (frames st)\<rparr>"
  obtain res st1 where fm: "FindMedianSlope ext ?st0 = (res, st1)" by (metis prod.collapse)
  show ?thesis
  proof (cases res)
    case (Stop e)
    with run fm have "r = e" "st3 = st1" "wd3 = wd"
      by (simp_all add: LossyEncodeSlopeOptim_def)
    with fm Stop show ?thesis by (intro no_slope) auto
  next
    case (Val limit)
    obtain r2 st2 wd2 where lp: "slope_optim_loop ext limit (minimum_lossy_quality st1) 100
         [0..<length (frames st1)] st1 wd = (r2, st2, wd2)" by (metis prod.collapse)
    show ?thesis
    proof (cases "r2 = ok")
      case False
      with run fm Val lp have "r = r2" "st3 = st2" "wd3 = wd2"
        by (auto simp: LossyEncodeSlopeOptim_def split: Outcome.splits Status.splits)
      with fm Val lp False show ?thesis by (intro loop_stop) auto
    next
      case True
      obtain r3 fs where fs: "final_stats ext (frames st2) = (r3, fs)" by (metis prod.collapse)
      from run fm Val lp True fs have "st3 = st2\<lparr>frames := fs\<rparr>" "wd3 = wd2"
        "r = (if r3 = ok then (if 0 < data_size wd3 then ok else Returns kByteBudgetError)
            else r3)"
        by (auto simp: LossyEncodeSlopeOptim_def split: Outcome.splits Status.splits)
      with fm Val lp True fs show ?thesis by (intro stats) auto
    qed
  qed
qed

lemma LossyEncodeSlopeOptim_range:
  assumes run: "LossyEncodeSlopeOptim ext st wd = (r, st1, wd1)"
    and unset: "list_all (\<lambda>f. final_quality f < minimum_lossy_quality st)
                  (SortFrames ext (frames st))"
  shows "list_all2 (\<lambda>f f1. final_quality f1 = final_quality f
                      \<or> (minimum_lossy_quality st \<le> final_quality f1 \<and> final_quality f1 \<le> 100))
           (SortFrames ext (frames st)) (frames st1)"
proof -
  let ?P = "\<lambda>f f1. final_quality f1 = final_quality f
      \<or> (minimum_lossy_quality st \<le> final_quality f1 \<and> final_quality f1 \<le> 100)"
  let ?st0 = "st\<lparr>frames := SortFrames ext (frames st)\<rparr>"
  have same: "list_all2 ?P xs ys" if "map final_quality ys = map final_quality xs"
    for xs ys :: "'a FrameData list"
  proof -
    from that have "length ys = length xs" by (metis length_map)
    with map_eq_nth [OF that] show ?thesis by (simp add: list_all2_conv_all_nth)
  qed
  have loop: "list_all2 ?P (SortFrames ext (frames st)) (frames st2)"
    if fm: "FindMedianSlope ext ?st0 = (Val limit, st1')"
      and lp: "slope_optim_loop ext limit (minimum_lossy_quality st1') 100
         [0..<length (frames st1')] st1' wd = (r2, st2, wd2)"
    for limit st1' r2 st2 wd2
  proof -
    note s1 = FindMedianSlope_state [OF fm]
    from s1 have fq1: "map final_quality (frames st1') = map final_quality (SortFrames ext (frames st))"
      by simp
    then have len: "length (frames st1') = length (SortFrames ext (frames st))"
      by (metis length_map)
    have inv: "list_all (\<lambda>f. final_quality f < minimum_lossy_quality st1') (frames st1')"
      using unset s1 len map_eq_nth [OF fq1] by (simp add: list_all_length)
    from slope_optim_loop_range [OF lp inv] s1
    have "list_all2 ?P (frames st1') (frames st2)" by simp
    with same [OF fq1] show ?thesis
      by (rule list_all2_trans [rotated]) auto
  qed
  from run show ?thesis
  proof (cases rule: LossyEncodeSlopeOptim_cases)
    case (no_slope e st1')
    from FindMedianSlope_state [OF no_slope(1)] no_slope(3) show ?thesis
      by (intro same) simp
  next
    case (loop_stop limit st1')
    from loop [OF loop_stop(1,2)] show ?thesis .
  next
    case (stats limit st1' st2 r3 fs)
    from final_stats_final_quality [OF stats(3)] stats(4)
    have "map final_quality (frames st1) = map final_quality (frames st2)" by simp
    from loop [OF stats(1,2)] same [OF this] show ?thesis
      by (rule list_all2_trans [rotated]) auto
  qed
qed

lemma LossyEncodeSlopeOptim_data:
  assumes "LossyEncodeSlopeOptim ext st wd = (r, st1, wd1)"
  shows "byte_budget st1 = byte_budget st
         \<and> (wd1 = wd \<or> size_le_budget (data_size wd1) (byte_budget st))"
  using assms
proof (cases rule: LossyEncodeSlopeOptim_cases)
  case (no_slope e st1')
  with FindMedianSlope_state [OF no_slope(1)] show ?thesis by simp
next
  case (loop_stop limit st1')
  from FindMedianSlope_state [OF loop_stop(1)] slope_optim_loop_data [OF loop_stop(2)]
  show ?thesis by simp
next
  case (stats limit st1' st2 r3 fs)
  from FindMedianSlope_state [OF stats(1)] slope_optim_loop_data [OF stats(2)] stats(4)
  show ?thesis by simp
qed

lemma LossyEncodeNoSlopeOptim_result:
  assumes "LossyEncodeNoSlopeOptim ext st wd = (r, st1, wd1)"
  shows "byte_budget st1 = byte_budget st
         \<and> (wd1 = wd \<or> size_le_budget (data_size wd1) (byte_budget st))
         \<and> list_all2 (\<lambda>f f1.
               (final_quality f1 = final_quality f
                  \<or> (noslope_min_quality f \<le> final_quality f1
                       \<and> final_quality f1 \<le> noslope_max_quality f))
               \<and> final_psnr f \<le> final_psnr f1) (frames st) (frames st1)"
proof (cases "byte_budget st < GetAnimationSize ext wd")
  case True
  with assms show ?thesis by (simp add: LossyEncodeNoSlopeOptim_def list_all2_same)
next
  case False
  let ?P = "\<lambda>f f1. (final_quality f1 = final_quality f
                  \<or> (noslope_min_quality f \<le> final_quality f1
                       \<and> final_quality f1 \<le> noslope_max_quality f))
               \<and> final_psnr f \<le> final_psnr f1"
  obtain r0 a fs where scan: "noslope_scan ext (byte_budget st) (int (length (frames st)))
      (GetAnimationSize ext wd) (frames st) = (r0, a, fs)" by (metis prod.collapse)
  from noslope_scan_result [OF scan] have fsP: "list_all2 ?P (frames st) fs"
    by (auto elim!: list_all2_mono)
  have restore: "list_all2 ?P (frames st) (map restore_config fs)"
    using fsP by (simp add: list_all2_map2 restore_config_def)
  show ?thesis
  proof (cases "r0 = ok")
    case bad: False
    with assms False scan have "st1 = st\<lparr>frames := fs\<rparr>" "wd1 = wd"
      by (auto simp: LossyEncodeNoSlopeOptim_def split: Outcome.splits Status.splits)
    with fsP show ?thesis by simp
  next
    case True
    show ?thesis
    proof (cases "GenerateAnimationNoBudget ext (st\<lparr>frames := map restore_config fs\<rparr>)")
      case (Stop e)
      with assms False scan True have "st1 = st\<lparr>frames := map restore_config fs\<rparr>" "wd1 = wd"
        by (auto simp: LossyEncodeNoSlopeOptim_def Let_def)
      with restore show ?thesis by simp
    next
      case (Val d)
      with assms False scan True have "st1 = st\<lparr>frames := map restore_config fs\<rparr>"
        "wd1 = wd \<or> (wd1 = d \<and> size_le_budget (data_size d) (byte_budget st))"
        by (auto simp: LossyEncodeNoSlopeOptim_def Let_def split: if_splits)
      with restore show ?thesis by auto
    qed
  qed
qed

declare extra_search.simps [simp del]

lemma extra_trial_final_quality:
  "map final_quality (extra_trial mid order fs) = map final_quality fs"
  unfolding extra_trial_def
proof (induction order arbitrary: fs)
  case Nil
  then show ?case by simp
next
  case (Cons i rest)
  let ?fs1 = "fs[i := set_quality (max (final_quality (fs ! i)) mid) (fs ! i)]"
  have "map final_quality ?fs1 = map final_quality fs"
    by (rule map_update_same) (simp add: set_quality_def)
  with Cons [of ?fs1] show ?case by simp
qed

lemma extra_search_result:
  assumes "extra_search ext order lo hi fq st wd = (r, fq1, st1, wd1)"
  shows "byte_budget st1 = byte_budget st
         \<and> map final_quality (frames st1) = map final_quality (frames st)
         \<and> (wd1 = wd \<or> size_le_budget (data_size wd1) (byte_budget st))"
  using assms
proof (induction "nat (hi - lo + 1)" arbitrary: lo hi fq st wd rule: less_induct)
  case less
  show ?case
  proof (cases "lo \<le> hi")
    case False
    with less.prems show ?thesis by (subst (asm) extra_search.simps) simp
  next
    case True
    define mid where "mid = c_div (lo + hi) 2"
    from c_div_mid [OF True] have mid: "lo \<le> mid" "mid \<le> hi" by (simp_all add: mid_def)
    let ?st1 = "st\<lparr>frames := extra_trial mid order (frames st)\<rparr>"
    have fq1: "map final_quality (frames ?st1) = map final_quality (frames st)"
      by (simp add: extra_trial_final_quality)
    show ?thesis
    proof (cases "GenerateAnimationNoBudget ext ?st1")
      case (Stop e)
      with less.prems True have "st1 = ?st1" "wd1 = wd"
        by (subst (asm) extra_search.simps; simp add: mid_def [symmetric] Let_def)+
      with fq1 show ?thesis by simp
    next
      case (Val d)
      show ?thesis
      proof (cases "size_le_budget (data_size d) (byte_budget st)")
        case fits: True
        with less.prems True Val have rec:
          "extra_search ext order (mid + 1) hi mid ?st1 d = (r, fq1, st1, wd1)"
          by (subst (asm) extra_search.simps) (simp add: mid_def [symmetric] Let_def)
        have "nat (hi - (mid + 1) + 1) < nat (hi - lo + 1)" using mid True by simp
        from less.hyps [OF this rec] fq1 fits show ?thesis by auto
      next
        case nofit: False
        with less.prems True Val have rec:
          "extra_search ext order lo (mid - 1) fq ?st1 wd = (r, fq1, st1, wd1)"
          by (subst (asm) extra_search.simps) (simp add: mid_def [symmetric] Let_def)
        have "nat (mid - 1 - lo + 1) < nat (hi - lo + 1)" using mid True by simp
        from less.hyps [OF this rec] fq1 show ?thesis by auto
      qed
    qed
  qed
qed

lemma le_refl_map: "list_all2 (\<le>) (map f xs) (map f (xs :: 'a list)) "
  for f :: "'a \<Rightarrow> int"
  by (simp add: list_all2_same)

lemma extra_commit_monotone:
  "extra_commit ext fq order fs = (r, fs1) \<Longrightarrow>
   list_all2 (\<le>) (map final_quality fs) (map final_quality fs1)"
proof (induction order arbitrary: fs)
  case Nil
  then show ?case by (simp add: list_all2_same)
next
  case (Cons i rest)
  show ?case
  proof (cases "final_quality (fs ! i) < fq")
    case False
    with Cons show ?thesis by simp
  next
    case True
    let ?f0 = "set_quality fq ((fs ! i)\<lparr>final_quality := fq\<rparr>)"
    obtain res f1 where gs: "GetPictureStats ext ?f0 = (res, f1)" by (metis prod.collapse)
    from GetPictureStats_final_quality [OF gs]
    have f1: "final_quality f1 = fq" by (simp add: set_quality_def)
    have up: "list_all2 (\<le>) (map final_quality fs) (map final_quality (fs[i := g]))"
      if "final_quality g = fq" for g :: "'a FrameData"
      using True that by (intro le_update) (simp_all add: list_all2_same)
    show ?thesis
    proof (cases res)
      case (Stop e)
      with Cons.prems True gs have "fs1 = fs[i := f1]" by simp
      with up [OF f1] show ?thesis by simp
    next
      case (Val v)
      let ?fs2 = "fs[i := f1\<lparr>encoded_size := fst v, final_psnr := snd v\<rparr>]"
      from Cons.prems True gs Val have rec: "extra_commit ext fq rest ?fs2 = (r, fs1)"
        by (cases v) simp
      have "list_all2 (\<le>) (map final_quality fs) (map final_quality ?fs2)"
        by (rule up) (simp add: f1)
      from this Cons.IH [OF rec] show ?thesis
        by (rule list_all2_trans [rotated]) auto
    qed
  qed
qed


lemma encoding_order_loop_final_quality:
  "encoding_order_loop ext idxs fs acc = (r, fs1, order)
     \<Longrightarrow> map final_quality fs1 = map final_quality fs"
proof (induction idxs arbitrary: fs acc)
  case Nil
  then show ?case by simp
next
  case (Cons i rest)
  show ?case
  proof (cases "near_lossless (fs ! i)")
    case True
    with Cons show ?thesis by simp
  next
    case False
    obtain res f1 where cs: "ComputeSlope ext (final_quality (fs ! i)) 100 (fs ! i) = (res, f1)"
      by (metis prod.collapse)
    have u: "map final_quality (fs[i := f1]) = map final_quality fs"
      using ComputeSlope_final_quality [OF cs] by (rule map_update_same)
    show ?thesis
    proof (cases res)
      case (Stop e)
      with Cons.prems False cs u show ?thesis by simp
    next
      case (Val s)
      with Cons.prems False cs have
        "encoding_order_loop ext rest (fs[i := f1]) (acc @ [(s, i)]) = (r, fs1, order)" by simp
      from Cons.IH [OF this] u show ?thesis by simp
    qed
  qed
qed

lemma extra_loop_result:
  "extra_loop ext encoding_order st wd = (r, st1, wd1) \<Longrightarrow>
   byte_budget st1 = byte_budget st
   \<and> list_all2 (\<le>) (map final_quality (frames st)) (map final_quality (frames st1))
   \<and> (wd1 = wd \<or> size_le_budget (data_size wd1) (byte_budget st))"
proof (induction encoding_order arbitrary: st wd)
  case Nil
  then show ?case by (simp add: list_all2_same)
next
  case (Cons first rest)
  define order where "order = map snd (first # rest)"
  define lo where "lo = extra_min_quality order (frames st)"
  obtain r0 fq st0 wd0 where es:
    "extra_search ext order lo (min (lo + 30) 100) (- 1) st wd = (r0, fq, st0, wd0)"
    by (metis prod.collapse)
  note sr = extra_search_result [OF es]
  have same: "list_all2 (\<le>) (map final_quality (frames st)) (map final_quality (frames st0))"
    using sr by (simp add: list_all2_same)
  from Cons.prems es have unfold:
    "(case (r0, fq, st0, wd0) of
        (Returns kOk, fq, st1, webp_data1) \<Rightarrow>
          if fq = -1 then (ok, st1, webp_data1)
          else
            (case extra_commit ext fq order (frames st1) of
               (Returns kOk, fs) \<Rightarrow> extra_loop ext rest (st1\<lparr>frames := fs\<rparr>) webp_data1
             | (e, fs) \<Rightarrow> (e, st1\<lparr>frames := fs\<rparr>, webp_data1))
      | (e, fq, st1, webp_data1) \<Rightarrow> (e, st1, webp_data1)) = (r, st1, wd1)"
    apply (subst (asm) extra_loop.simps(2))
    apply (unfold Let_def order_def [symmetric])
    apply (unfold lo_def [symmetric])
    apply (simp only:)
    done
  show ?case
  proof (cases "r0 = ok \<and> fq \<noteq> - 1")
    case False
    with unfold have "st1 = st0" "wd1 = wd0"
      by (auto split: Outcome.splits Status.splits if_splits)
    with sr same show ?thesis by simp
  next
    case True
    obtain r2 fs where ec: "extra_commit ext fq order (frames st0) = (r2, fs)"
      by (metis prod.collapse)
    note mono = extra_commit_monotone [OF ec]
    from same mono
    have to_fs: "list_all2 (\<le>) (map final_quality (frames st)) (map final_quality fs)"
      by (rule list_all2_trans [rotated]) auto
    show ?thesis
    proof (cases "r2 = ok")
      case bad: False
      with unfold True ec have "st1 = st0\<lparr>frames := fs\<rparr>" "wd1 = wd0"
        by (auto split: Outcome.splits Status.splits)
      with sr to_fs show ?thesis by simp
    next
      case ok2: True
      with unfold True ec have rec: "extra_loop ext rest (st0\<lparr>frames := fs\<rparr>) wd0 = (r, st1, wd1)"
        by simp
      from Cons.IH [OF rec]
      have b: "byte_budget st1 = byte_budget st0"
        and q: "list_all2 (\<le>) (map final_quality fs) (map final_quality (frames st1))"
        and w: "wd1 = wd0 \<or> size_le_budget (data_size wd1) (byte_budget st0)"
        by simp_all
      from to_fs q
      have "list_all2 (\<le>) (map final_quality (frames st)) (map final_quality (frames st1))"
        by (rule list_all2_trans [rotated]) auto
      with b w sr show ?thesis by auto
    qed
  qed
qed

lemma ExtraLossyEncode_result:
  assumes "ExtraLossyEncode ext st wd = (r, st1, wd1)"
  shows "byte_budget st1 = byte_budget st
         \<and> list_all2 (\<le>) (map final_quality (frames st)) (map final_quality (frames st1))
         \<and> (wd1 = wd \<or> size_le_budget (data_size wd1) (byte_budget st))"
proof -
  obtain r0 fs order where eo:
    "encoding_order_loop ext [0..<length (frames st)] (frames st) [] = (r0, fs, order)"
    by (metis prod.collapse)
  note fq = encoding_order_loop_final_quality [OF eo]
  show ?thesis
  proof (cases "r0 = ok")
    case False
    with assms eo have "st1 = st\<lparr>frames := fs\<rparr>" "wd1 = wd"
      by (auto simp: ExtraLossyEncode_def split: Outcome.splits Status.splits)
    with fq show ?thesis by (simp add: list_all2_same)
  next
    case True
    obtain r2 st2 wd2 where el:
      "extra_loop ext (SortEncodingOrder ext order) (st\<lparr>frames := fs\<rparr>) wd = (r2, st2, wd2)"
      by (metis prod.collapse)
    from assms eo True el have "st1 = st2" "wd1 = wd2"
      by (auto simp: ExtraLossyEncode_def split: Outcome.splits Status.splits)
    with extra_loop_result [OF el] fq show ?thesis by simp
  qed
qed

subsection \<open>The byte budget over the whole run\<close>

lemma size_le_budget_nonneg: "0 \<le> b \<Longrightarrow> size_le_budget sz b = (int sz \<le> b)"
  by (auto simp: size_le_budget_def)

lemma refine_loop_fits:
  assumes "refine_loop ext i c st wd lg = ((r, st1, wd1), lg1)"
    and "0 \<le> byte_budget st" and "int (data_size wd) \<le> byte_budget st"
  shows "byte_budget st1 = byte_budget st \<and> int (data_size wd1) \<le> byte_budget st"
  using assms
proof (induction "nat (KMaxIter - i)" arbitrary: i c st wd lg rule: less_induct)
  case less
  show ?case
  proof (cases "i < KMaxIter")
    case False
    with less.prems show ?thesis by (subst (asm) refine_loop.simps) simp
  next
    case True
    obtain r0 st0 wd0 where ns: "LossyEncodeNoSlopeOptim ext st wd = (r0, st0, wd0)"
      by (metis prod.collapse)
    from LossyEncodeNoSlopeOptim_result [OF ns] less.prems(2,3)
    have b0: "byte_budget st0 = byte_budget st" and f0: "int (data_size wd0) \<le> byte_budget st"
      by (auto simp: size_le_budget_nonneg)
    show ?thesis
    proof (cases "r0 = ok \<and> \<not> int_eq_size c (data_size wd0)")
      case False
      with less.prems(1) True ns have "st1 = st0" "wd1 = wd0"
        by (subst (asm) refine_loop.simps; auto split: Outcome.splits Status.splits)+
      with b0 f0 show ?thesis by simp
    next
      case go: True
      with less.prems(1) True ns have rec:
        "refine_loop ext (i + 1) (size_to_int (data_size wd0)) st0 wd0
           (lg @ [(NoSlopeOptim, data_size wd0)]) = ((r, st1, wd1), lg1)"
        by (subst (asm) refine_loop.simps) auto
      have "nat (KMaxIter - (i + 1)) < nat (KMaxIter - i)" using True by simp
      from less.hyps [OF this rec] b0 f0 less.prems(2) show ?thesis by simp
    qed
  qed
qed

text \<open>
  With a budget that is not negative, on an initialised, empty \<^verbatim>\<open>webp_data\<close>, and with a
  \<^verbatim>\<open>NearLosslessEqual\<close> and a \<^verbatim>\<open>GenerateAnimationEqualQuality\<close> that keep the budget and never
  replace an animation within the budget by one above it, the animation that a run of
  \<^verbatim>\<open>GenerateAnimationSlopeOptim\<close> leaves in \<^verbatim>\<open>webp_data\<close> is within the budget.
\<close>

lemma budget_kept:
  assumes budget: "0 \<le> byte_budget st" and empty: "data_size webp_data = 0"
    and nle: "\<And>s w r s1 w1. NearLosslessEqual ext s w = (r, s1, w1) \<Longrightarrow>
               byte_budget s1 = byte_budget s
               \<and> (int (data_size w) \<le> byte_budget s \<longrightarrow> int (data_size w1) \<le> byte_budget s)"
    and eqq: "\<And>s w r s1 w1. GenerateAnimationEqualQuality ext s w = (r, s1, w1) \<Longrightarrow>
               byte_budget s1 = byte_budget s
               \<and> (int (data_size w) \<le> byte_budget s \<longrightarrow> int (data_size w1) \<le> byte_budget s)"
    and run: "GenerateAnimationSlopeOptim ext st webp_data = (r, st1, webp_data1)"
  shows "int (data_size webp_data1) \<le> byte_budget st"
proof -
  let ?st0 = "st\<lparr>frames := map reset_lossy_data (frames st)\<rparr>"
  obtain ra sta wda where so: "LossyEncodeSlopeOptim ext ?st0 webp_data = (ra, sta, wda)"
    by (metis prod.collapse)
  from LossyEncodeSlopeOptim_data [OF so] budget empty
  have ba: "byte_budget sta = byte_budget st" and fa: "int (data_size wda) \<le> byte_budget st"
    by (auto simp: size_le_budget_nonneg)
  have first: "r = ra \<and> st1 = sta \<and> webp_data1 = wda" if "ra \<noteq> ok"
    using that run so
    by (auto simp: GenerateAnimationSlopeOptim_def GenerateAnimationSlopeOptim_logged_def
        slope_then_near_lossless_def split: Outcome.splits Status.splits)
  show ?thesis
  proof (cases "ra = ok")
    case False
    with first fa show ?thesis by simp
  next
    case True
    obtain rb stb wdb where nl: "NearLosslessEqual ext sta wda = (rb, stb, wdb)"
      by (metis prod.collapse)
    from nle [OF nl] ba fa
    have bb: "byte_budget stb = byte_budget st" and fb: "int (data_size wdb) \<le> byte_budget st"
      by auto
    from so True nl have stn: "slope_then_near_lossless ext st webp_data
        = ((rb, stb, wdb), [(SlopeOptim, data_size wda), (NearLossless, data_size wdb)])"
      by (simp add: slope_then_near_lossless_def)
    show ?thesis
    proof (cases "rb = ok")
      case False
      with run stn have "webp_data1 = wdb"
        by (auto simp: GenerateAnimationSlopeOptim_def GenerateAnimationSlopeOptim_logged_def
            split: Outcome.splits Status.splits)
      with fb show ?thesis by simp
    next
      case okb: True
      show ?thesis
      proof (cases "filter near_lossless (frames stb) = []")
        case True
        obtain rc stc wdc where eq: "GenerateAnimationEqualQuality ext stb wdb = (rc, stc, wdc)"
          by (metis prod.collapse)
        from run stn okb True eq have "webp_data1 = wdc"
          by (simp add: GenerateAnimationSlopeOptim_def GenerateAnimationSlopeOptim_logged_def)
        with eqq [OF eq] bb fb show ?thesis by simp
      next
        case some: False
        obtain rc stc wdc lgc where rl:
          "refine_loop ext 0 (size_to_int (data_size wdb)) stb wdb
             [(SlopeOptim, data_size wda), (NearLossless, data_size wdb)]
           = ((rc, stc, wdc), lgc)"
          by (metis prod.collapse)
        from refine_loop_fits [OF rl] bb fb budget
        have bc: "byte_budget stc = byte_budget st" and fc: "int (data_size wdc) \<le> byte_budget st"
          by simp_all
        show ?thesis
        proof (cases "rc = ok")
          case False
          with run stn okb some rl have "webp_data1 = wdc"
            by (auto simp: GenerateAnimationSlopeOptim_def GenerateAnimationSlopeOptim_logged_def
                split: Outcome.splits Status.splits)
          with fc show ?thesis by simp
        next
          case okc: True
          obtain rd std wdd where ex: "ExtraLossyEncode ext stc wdc = (rd, std, wdd)"
            by (metis prod.collapse)
          from run stn okb some rl okc ex have "webp_data1 = wdd"
            by (simp add: GenerateAnimationSlopeOptim_def GenerateAnimationSlopeOptim_logged_def)
          with ExtraLossyEncode_result [OF ex] bc fc budget show ?thesis
            by (auto simp: size_le_budget_nonneg)
        qed
      qed
    qed
  qed
qed

text \<open>
  C1 fails on the code in both halves. With a budget of \<open>-1\<close>, which no animation fits, the
  comparisons \<^verbatim>\<open>new_webp_data.size <= byte_budget_\<close> convert the budget to \<^verbatim>\<open>size_t\<close>: the first
  trial of the global binary search, at quality 50, is taken to fit, and the run returns
  \<^verbatim>\<open>kOk\<close> with an animation of 150 bytes. With a budget of 10 bytes, which no assembly of the
  frame fits (the one at the minimum quality 0 has 100 bytes), nothing is committed and
  \<^verbatim>\<open>webp_data\<close> stays empty, but the last loop of \<^verbatim>\<open>LossyEncodeSlopeOptim\<close> asks for the
  statistics of the frame at its \<^verbatim>\<open>final_quality\<close>, which is \<open>-1\<close>: with a codec that only
  accepts the qualities from 0 to 100 the run returns \<^verbatim>\<open>kStatsError\<close>; it returns
  \<^verbatim>\<open>kByteBudgetError\<close> with a codec that answers at \<open>-1\<close>.
\<close>

theorem negative_budget_returns_ok:
  "byte_budget (example_state [fresh_frame] (- 1)) = - 1
   \<and> fst (GenerateAnimationSlopeOptim flag_ext (example_state [fresh_frame] (- 1)) WebPDataInit)
       = ok
   \<and> data_size (snd (snd (GenerateAnimationSlopeOptim flag_ext
                             (example_state [fresh_frame] (- 1)) WebPDataInit))) = 150
   \<and> map final_quality
        (frames (fst (snd (GenerateAnimationSlopeOptim flag_ext
                             (example_state [fresh_frame] (- 1)) WebPDataInit)))) = [50]
   \<and> GenerateAnimationNoBudget bounded_ext
        (example_state [set_quality 0 fresh_frame] 10) = Val (example_data 100)
   \<and> fst (GenerateAnimationSlopeOptim bounded_ext (example_state [fresh_frame] 10) WebPDataInit)
       = Returns kStatsError
   \<and> data_size (snd (snd (GenerateAnimationSlopeOptim bounded_ext
                             (example_state [fresh_frame] 10) WebPDataInit))) = 0
   \<and> map final_quality
        (frames (fst (snd (GenerateAnimationSlopeOptim bounded_ext
                             (example_state [fresh_frame] 10) WebPDataInit)))) = [- 1]
   \<and> fst (GenerateAnimationSlopeOptim linear_ext (example_state [fresh_frame] 10) WebPDataInit)
       = Returns kByteBudgetError"
  by code_simp

subsection \<open>The threshold search and the median slope\<close>

lemma stats_at_set_quality [simp]:
  "stats_at ext (set_quality q' frame) q = stats_at ext frame q"
  by (simp add: stats_at_def set_quality_def)

lemma GetPictureStats_stats_at:
  assumes "GetPictureStats ext frame = (res, f1)"
  shows "res = (case stats_at ext frame (quality (config frame)) of
                  None \<Rightarrow> Stop (Returns kStatsError) | Some v \<Rightarrow> Val v)
         \<and> stats_at ext f1 = stats_at ext frame"
proof -
  define q0 where "q0 = quality (config frame)"
  have cfg: "(config frame)\<lparr>quality := q0\<rparr> = config frame" by (simp add: q0_def)
  show ?thesis
  proof (cases "0 \<le> q0 \<and> q0 \<le> 100 \<and> lossy_data frame q0 \<noteq> (-1, -1)")
    case True
    with assms show ?thesis
      by (auto simp: GetPictureStats_def Let_def stats_at_def q0_def)
  next
    case miss: False
    then have at0: "stats_at ext frame q0 = EncodeMeasure ext (pic frame) (config frame)"
      by (auto simp: stats_at_def cfg)
    show ?thesis
    proof (cases "EncodeMeasure ext (pic frame) (config frame)")
      case None
      with assms miss at0 show ?thesis
        by (auto simp: GetPictureStats_def Let_def q0_def)
    next
      case (Some v)
      with assms miss have res: "res = Val v"
        and f1: "f1 = (if 0 \<le> q0 \<and> q0 \<le> 100
                       then frame\<lparr>lossy_data := (lossy_data frame)(q0 := v)\<rparr> else frame)"
        by (auto simp: GetPictureStats_def Let_def q0_def)
      have "stats_at ext f1 q = stats_at ext frame q" for q
      proof (cases "q = q0")
        case True
        with f1 at0 Some show ?thesis by (auto simp: stats_at_def cfg)
      next
        case False
        with f1 show ?thesis by (auto simp: stats_at_def)
      qed
      with res at0 Some show ?thesis by (auto simp: q0_def)
    qed
  qed
qed



lemma float_le_refl: "a \<noteq> NaN \<Longrightarrow> float_le a a"
  unfolding float_le_def by (cases a) auto






















subsection \<open>Writes to the final quality\<close>

lemma raised_from_range:
  assumes "list_all2 (\<lambda>f f1. final_quality f1 = final_quality f
                        \<or> (lo \<le> final_quality f1 \<and> final_quality f1 \<le> hi)) fs fs1"
    and "list_all (\<lambda>f. final_quality f < lo) fs"
  shows "list_all2 (\<lambda>f f1. final_quality f \<le> final_quality f1) fs fs1"
  using assms unfolding list_all2_conv_all_nth list_all_length by fastforce

lemma top_up_step_refl: "top_up_step ext f f"
  by (simp add: top_up_step_def)

lemma top_up_step_trans:
  assumes "top_up_step ext f f1" and "top_up_step ext f1 f2"
  shows "top_up_step ext f f2"
proof -
  from assms have st: "stats_at ext f2 = stats_at ext f" "stats_at ext f1 = stats_at ext f"
    and nl: "near_lossless f2 = near_lossless f" "near_lossless f1 = near_lossless f"
    and fq: "final_quality f \<le> final_quality f1" "final_quality f1 \<le> final_quality f2"
    by (simp_all add: top_up_step_def)
  have ps: "psnr_at ext f1 = psnr_at ext f" by (simp add: psnr_at_def fun_eq_iff st)
  from assms(2) consider "final_psnr f2 = final_psnr f1"
    | q where "\<not> near_lossless f1" "final_quality f1 \<le> q" "q \<le> 100"
        "final_psnr f2 = psnr_at ext f1 q"
    by (auto simp: top_up_step_def)
  then have "final_psnr f2 = final_psnr f
          \<or> (\<not> near_lossless f
              \<and> (\<exists>q. final_quality f \<le> q \<and> q \<le> 100 \<and> final_psnr f2 = psnr_at ext f q))"
  proof cases
    case 1
    with assms(1) show ?thesis by (auto simp: top_up_step_def)
  next
    case 2
    with fq(1) nl ps have "\<not> near_lossless f" "final_quality f \<le> q" "q \<le> 100"
      "final_psnr f2 = psnr_at ext f q" by simp_all
    then show ?thesis by blast
  qed
  with st nl fq show ?thesis by (simp add: top_up_step_def)
qed

lemma top_up_steps_refl: "list_all2 (top_up_step ext) fs fs"
  by (simp add: list_all2_same top_up_step_refl)

lemma top_up_steps_trans:
  assumes "list_all2 (top_up_step ext) fs fs1" and "list_all2 (top_up_step ext) fs1 fs2"
  shows "list_all2 (top_up_step ext) fs fs2"
  using top_up_step_trans assms by (rule list_all2_trans)

lemma top_up_steps_update:
  assumes "i < length fs \<Longrightarrow> top_up_step ext (fs ! i) y"
  shows "list_all2 (top_up_step ext) fs (fs[i := y])"
proof (cases "i < length fs")
  case True
  show ?thesis
    unfolding list_all2_conv_all_nth
  proof (intro conjI allI impI)
    show "length fs = length (fs[i := y])" by simp
    fix j assume "j < length fs"
    then show "top_up_step ext (fs ! j) (fs[i := y] ! j)"
      using assms [OF True] by (cases "j = i") (simp_all add: top_up_step_refl)
  qed
next
  case False
  then have "fs[i := y] = fs" by (simp add: list_update_beyond)
  then show ?thesis by (simp only: top_up_steps_refl)
qed

lemma lossy_indices_steps:
  assumes "list_all2 (top_up_step ext) fs fs1" and "lossy_indices order fs"
  shows "lossy_indices order fs1"
  unfolding lossy_indices_def
proof (intro ballI impI)
  fix i assume i: "i \<in> set order" "i < length fs1"
  from assms(1) have len: "length fs = length fs1" by (rule list_all2_lengthD)
  from assms(1) i(2) len have "top_up_step ext (fs ! i) (fs1 ! i)"
    by (simp add: list_all2_conv_all_nth)
  then have "near_lossless (fs1 ! i) = near_lossless (fs ! i)" by (simp add: top_up_step_def)
  with assms(2) i len show "\<not> near_lossless (fs1 ! i)" by (simp add: lossy_indices_def)
qed

lemma GetPictureStats_step:
  assumes "GetPictureStats ext (set_quality q g) = (res, f1)"
    and "stats_at ext g = stats_at ext f" and "near_lossless g = near_lossless f"
    and "final_quality g = fq" and "final_psnr g = final_psnr f"
  shows "stats_at ext f1 = stats_at ext f \<and> near_lossless f1 = near_lossless f
         \<and> final_quality f1 = fq \<and> final_psnr f1 = final_psnr f
         \<and> (\<forall>new_size new_psnr. res = Val (new_size, new_psnr)
               \<longrightarrow> new_psnr = psnr_at ext f q)"
proof -
  have q: "quality (config (set_quality q g)) = q" by (simp add: set_quality_def)
  have st: "stats_at ext (set_quality q g) = stats_at ext g" by (rule ext) simp
  from GetPictureStats_stats_at [OF assms(1)]
  have res: "res = (case stats_at ext g q of
                  None \<Rightarrow> Stop (Returns kStatsError) | Some v \<Rightarrow> Val v)"
    and inv: "stats_at ext f1 = stats_at ext g"
    unfolding q st by simp_all
  from GetPictureStats_fields [OF assms(1)] obtain c where
    f1: "f1 = (set_quality q g)\<lparr>lossy_data := c\<rparr>" by blast
  have "new_psnr = psnr_at ext f q" if "res = Val (new_size, new_psnr)" for new_size new_psnr
    using that res assms(2) by (simp add: psnr_at_def split: option.splits)
  with inv f1 assms(2-5) show ?thesis by (simp add: set_quality_def)
qed

lemma ComputeSlope_step:
  assumes "ComputeSlope ext lo hi f = (res, f1)"
  shows "top_up_step ext f f1"
proof -
  obtain r1 g1 where g1: "GetPictureStats ext (set_quality lo f) = (r1, g1)"
    by (metis prod.collapse)
  from GetPictureStats_step [OF g1 refl refl refl refl]
  have s1: "stats_at ext g1 = stats_at ext f" "near_lossless g1 = near_lossless f"
    "final_quality g1 = final_quality f" "final_psnr g1 = final_psnr f" by simp_all
  show ?thesis
  proof (cases r1)
    case (Stop e)
    with assms g1 have "f1 = g1" by (simp add: ComputeSlope_def)
    with s1 show ?thesis by (simp add: top_up_step_def)
  next
    case (Val v)
    obtain r2 g2 where g2: "GetPictureStats ext (set_quality hi g1) = (r2, g2)"
      by (metis prod.collapse)
    from GetPictureStats_step [OF g2 s1(1) s1(2) s1(3) s1(4)]
    have s2: "stats_at ext g2 = stats_at ext f" "near_lossless g2 = near_lossless f"
      "final_quality g2 = final_quality f" "final_psnr g2 = final_psnr f" by simp_all
    from assms g1 g2 Val have "f1 = g2"
      by (cases v; cases r2) (auto simp: ComputeSlope_def split: prod.splits)
    with s2 show ?thesis by (simp add: top_up_step_def)
  qed
qed

lemma encoding_order_loop_steps:
  assumes "encoding_order_loop ext idxs fs acc = (r, fs1, order)"
    and "lossy_indices (map snd acc) fs"
  shows "list_all2 (top_up_step ext) fs fs1 \<and> lossy_indices (map snd order) fs1"
  using assms
proof (induction idxs arbitrary: fs acc)
  case Nil
  then show ?case by (simp add: top_up_steps_refl)
next
  case (Cons i rest)
  show ?case
  proof (cases "near_lossless (fs ! i)")
    case True
    with Cons.prems have "encoding_order_loop ext rest fs acc = (r, fs1, order)" by simp
    from Cons.IH [OF this Cons.prems(2)] show ?thesis .
  next
    case False
    obtain res f1 where cs: "ComputeSlope ext (final_quality (fs ! i)) 100 (fs ! i) = (res, f1)"
      by (metis prod.collapse)
    have step: "list_all2 (top_up_step ext) fs (fs[i := f1])"
      by (rule top_up_steps_update) (rule ComputeSlope_step [OF cs])
    show ?thesis
    proof (cases res)
      case (Stop e)
      with Cons.prems(1) False cs have "fs1 = fs[i := f1]" "order = acc" by simp_all
      with step lossy_indices_steps [OF step Cons.prems(2)] show ?thesis by simp
    next
      case (Val slope)
      with Cons.prems(1) False cs have rec:
        "encoding_order_loop ext rest (fs[i := f1]) (acc @ [(slope, i)]) = (r, fs1, order)"
        by simp
      from Cons.prems(2) False have "lossy_indices (map snd (acc @ [(slope, i)])) fs"
        by (auto simp: lossy_indices_def)
      from lossy_indices_steps [OF step this]
      have "lossy_indices (map snd (acc @ [(slope, i)])) (fs[i := f1])" .
      from Cons.IH [OF rec this] step show ?thesis
        by (auto intro: top_up_steps_trans)
    qed
  qed
qed

lemma set_quality_step: "top_up_step ext f (set_quality q f)"
proof -
  have "stats_at ext (set_quality q f) = stats_at ext f" by (rule ext) simp
  then show ?thesis by (simp add: top_up_step_def set_quality_def)
qed

lemma extra_trial_steps: "list_all2 (top_up_step ext) fs (extra_trial mid order fs)"
  unfolding extra_trial_def
proof (induction order arbitrary: fs)
  case Nil
  show ?case by (simp add: top_up_steps_refl)
next
  case (Cons i rest)
  let ?fs1 = "fs[i := set_quality (max (final_quality (fs ! i)) mid) (fs ! i)]"
  have "list_all2 (top_up_step ext) fs ?fs1"
    by (rule top_up_steps_update) (rule set_quality_step)
  from top_up_steps_trans [OF this Cons [of ?fs1]] show ?case by simp
qed

lemma extra_search_steps:
  assumes "extra_search ext order lo hi fq st wd = (r, fq1, st1, wd1)"
  shows "list_all2 (top_up_step ext) (frames st) (frames st1)
         \<and> (fq1 = fq \<or> (lo \<le> fq1 \<and> fq1 \<le> hi))"
  using assms
proof (induction "nat (hi - lo + 1)" arbitrary: lo hi fq st wd rule: less_induct)
  case less
  show ?case
  proof (cases "lo \<le> hi")
    case False
    with less.prems show ?thesis
      by (subst (asm) extra_search.simps) (simp add: top_up_steps_refl)
  next
    case True
    define mid where "mid = c_div (lo + hi) 2"
    from c_div_mid [OF True] have mid: "lo \<le> mid" "mid \<le> hi" by (simp_all add: mid_def)
    let ?st1 = "st\<lparr>frames := extra_trial mid order (frames st)\<rparr>"
    have tr: "list_all2 (top_up_step ext) (frames st) (frames ?st1)"
      by (simp add: extra_trial_steps)
    show ?thesis
    proof (cases "GenerateAnimationNoBudget ext ?st1")
      case (Stop e)
      with less.prems True have "st1 = ?st1" "fq1 = fq"
        by (subst (asm) extra_search.simps; simp add: mid_def [symmetric] Let_def)+
      with tr show ?thesis by simp
    next
      case (Val d)
      show ?thesis
      proof (cases "size_le_budget (data_size d) (byte_budget st)")
        case fits: True
        with less.prems True Val have rec:
          "extra_search ext order (mid + 1) hi mid ?st1 d = (r, fq1, st1, wd1)"
          by (subst (asm) extra_search.simps) (simp add: mid_def [symmetric] Let_def)
        have "nat (hi - (mid + 1) + 1) < nat (hi - lo + 1)" using mid True by simp
        from less.hyps [OF this rec]
        have a: "list_all2 (top_up_step ext) (frames ?st1) (frames st1)"
          and b: "fq1 = mid \<or> (mid + 1 \<le> fq1 \<and> fq1 \<le> hi)" by simp_all
        from top_up_steps_trans [OF tr a] b mid show ?thesis by auto
      next
        case nofit: False
        with less.prems True Val have rec:
          "extra_search ext order lo (mid - 1) fq ?st1 wd = (r, fq1, st1, wd1)"
          by (subst (asm) extra_search.simps) (simp add: mid_def [symmetric] Let_def)
        have "nat (mid - 1 - lo + 1) < nat (hi - lo + 1)" using mid True by simp
        from less.hyps [OF this rec]
        have a: "list_all2 (top_up_step ext) (frames ?st1) (frames st1)"
          and b: "fq1 = fq \<or> (lo \<le> fq1 \<and> fq1 \<le> mid - 1)" by simp_all
        from top_up_steps_trans [OF tr a] b mid show ?thesis by auto
      qed
    qed
  qed
qed

lemma stats_at_final_quality_update:
  "stats_at ext (f\<lparr>final_quality := x\<rparr>) = stats_at ext f"
  by (rule ext) (simp add: stats_at_def)

lemma extra_commit_steps:
  assumes "extra_commit ext fq order fs = (r, fs1)"
    and "lossy_indices order fs" and "fq \<le> 100"
  shows "list_all2 (top_up_step ext) fs fs1"
  using assms(1,2)
proof (induction order arbitrary: fs)
  case Nil
  then show ?case by (simp add: top_up_steps_refl)
next
  case (Cons i rest)
  from Cons.prems(2) have rest: "lossy_indices rest fs" by (simp add: lossy_indices_def)
  show ?case
  proof (cases "final_quality (fs ! i) < fq")
    case False
    with Cons.prems(1) have "extra_commit ext fq rest fs = (r, fs1)" by simp
    from Cons.IH [OF this rest] show ?thesis .
  next
    case True
    let ?g = "(fs ! i)\<lparr>final_quality := fq\<rparr>"
    obtain res f1 where gs: "GetPictureStats ext (set_quality fq ?g) = (res, f1)"
      by (metis prod.collapse)
    have "stats_at ext ?g = stats_at ext (fs ! i)" by (rule stats_at_final_quality_update)
    from GetPictureStats_step [OF gs this, of fq]
    have f1: "stats_at ext f1 = stats_at ext (fs ! i)"
      "near_lossless f1 = near_lossless (fs ! i)"
      "final_quality f1 = fq" "final_psnr f1 = final_psnr (fs ! i)"
      and val: "\<And>new_size new_psnr. res = Val (new_size, new_psnr)
                  \<Longrightarrow> new_psnr = psnr_at ext (fs ! i) fq"
      by simp_all
    show ?thesis
    proof (cases res)
      case (Stop e)
      with Cons.prems(1) True gs have "fs1 = fs[i := f1]" by simp
      moreover have "top_up_step ext (fs ! i) f1"
        using f1 True by (simp add: top_up_step_def)
      ultimately show ?thesis by (simp add: top_up_steps_update)
    next
      case (Val v)
      obtain new_size new_psnr where v: "v = (new_size, new_psnr)" by (cases v)
      let ?y = "f1\<lparr>encoded_size := new_size, final_psnr := new_psnr\<rparr>"
      from Cons.prems(1) True gs Val v have rec:
        "extra_commit ext fq rest (fs[i := ?y]) = (r, fs1)" by simp
      have "stats_at ext ?y = stats_at ext f1" by (rule ext) (simp add: stats_at_def)
      with f1(1) have st: "stats_at ext ?y = stats_at ext (fs ! i)" by simp
      have step: "list_all2 (top_up_step ext) fs (fs[i := ?y])"
      proof (rule top_up_steps_update)
        assume "i < length fs"
        with Cons.prems(2) have nl: "\<not> near_lossless (fs ! i)" by (simp add: lossy_indices_def)
        from val Val v have "new_psnr = psnr_at ext (fs ! i) fq" by simp
        with True assms(3) have "\<exists>q. final_quality (fs ! i) \<le> q \<and> q \<le> 100
                                    \<and> new_psnr = psnr_at ext (fs ! i) q"
          by (intro exI [of _ fq]) simp
        with st nl f1 True show "top_up_step ext (fs ! i) ?y"
          by (simp add: top_up_step_def)
      qed
      from Cons.IH [OF rec lossy_indices_steps [OF step rest]]
      show ?thesis by (rule top_up_steps_trans [OF step])
    qed
  qed
qed

lemma extra_loop_steps:
  assumes "extra_loop ext encoding_order st wd = (r, st1, wd1)"
    and "lossy_indices (map snd encoding_order) (frames st)"
  shows "list_all2 (top_up_step ext) (frames st) (frames st1)"
  using assms
proof (induction encoding_order arbitrary: st wd)
  case Nil
  then show ?case by (simp add: top_up_steps_refl)
next
  case (Cons first rest)
  define order where "order = map snd (first # rest)"
  define lo where "lo = extra_min_quality order (frames st)"
  obtain r0 fq st0 wd0 where es:
    "extra_search ext order lo (min (lo + 30) 100) (- 1) st wd = (r0, fq, st0, wd0)"
    by (metis prod.collapse)
  from extra_search_steps [OF es]
  have s0: "list_all2 (top_up_step ext) (frames st) (frames st0)"
    and fq: "fq = - 1 \<or> fq \<le> 100" by auto
  from Cons.prems(2) have li: "lossy_indices order (frames st)" by (simp add: order_def)
  from Cons.prems(1) es have unfold:
    "(case (r0, fq, st0, wd0) of
        (Returns kOk, fq, st1, webp_data1) \<Rightarrow>
          if fq = -1 then (ok, st1, webp_data1)
          else
            (case extra_commit ext fq order (frames st1) of
               (Returns kOk, fs) \<Rightarrow> extra_loop ext rest (st1\<lparr>frames := fs\<rparr>) webp_data1
             | (e, fs) \<Rightarrow> (e, st1\<lparr>frames := fs\<rparr>, webp_data1))
      | (e, fq, st1, webp_data1) \<Rightarrow> (e, st1, webp_data1)) = (r, st1, wd1)"
    apply (subst (asm) extra_loop.simps(2))
    apply (unfold Let_def order_def [symmetric])
    apply (unfold lo_def [symmetric])
    apply (simp only:)
    done
  show ?case
  proof (cases "r0 = ok \<and> fq \<noteq> - 1")
    case False
    with unfold have "st1 = st0"
      by (auto split: Outcome.splits Status.splits if_splits)
    with s0 show ?thesis by simp
  next
    case True
    obtain r2 fs where ec: "extra_commit ext fq order (frames st0) = (r2, fs)"
      by (metis prod.collapse)
    from True fq have fq100: "fq \<le> 100" by simp
    note li0 = lossy_indices_steps [OF s0 li]
    note c = extra_commit_steps [OF ec li0 fq100]
    note to_fs = top_up_steps_trans [OF s0 c]
    show ?thesis
    proof (cases "r2 = ok")
      case bad: False
      with unfold True ec have "st1 = st0\<lparr>frames := fs\<rparr>"
        by (auto split: Outcome.splits Status.splits)
      with to_fs show ?thesis by simp
    next
      case ok2: True
      with unfold True ec have rec: "extra_loop ext rest (st0\<lparr>frames := fs\<rparr>) wd0 = (r, st1, wd1)"
        by simp
      from li have "lossy_indices (map snd rest) (frames st)"
        by (simp add: order_def lossy_indices_def)
      from lossy_indices_steps [OF to_fs this]
      have "lossy_indices (map snd rest) (frames (st0\<lparr>frames := fs\<rparr>))" by simp
      from Cons.IH [OF rec this] have "list_all2 (top_up_step ext) fs (frames st1)" by simp
      from top_up_steps_trans [OF to_fs this] show ?thesis .
    qed
  qed
qed

lemma ExtraLossyEncode_steps:
  assumes "ExtraLossyEncode ext st wd = (r, st1, wd1)"
    and "\<And>xs. set (SortEncodingOrder ext xs) \<subseteq> set xs"
  shows "list_all2 (top_up_step ext) (frames st) (frames st1)"
proof -
  obtain r0 fs order where eo:
    "encoding_order_loop ext [0..<length (frames st)] (frames st) [] = (r0, fs, order)"
    by (metis prod.collapse)
  have "lossy_indices (map snd []) (frames st)" by (simp add: lossy_indices_def)
  from encoding_order_loop_steps [OF eo this]
  have s0: "list_all2 (top_up_step ext) (frames st) fs"
    and li: "lossy_indices (map snd order) fs" by simp_all
  show ?thesis
  proof (cases "r0 = ok")
    case False
    with assms(1) eo have "st1 = st\<lparr>frames := fs\<rparr>"
      by (auto simp: ExtraLossyEncode_def split: Outcome.splits Status.splits)
    with s0 show ?thesis by simp
  next
    case True
    obtain r2 st2 wd2 where el:
      "extra_loop ext (SortEncodingOrder ext order) (st\<lparr>frames := fs\<rparr>) wd = (r2, st2, wd2)"
      by (metis prod.collapse)
    from assms(1) eo True el have st1: "st1 = st2"
      by (auto simp: ExtraLossyEncode_def split: Outcome.splits Status.splits)
    from li assms(2) [of order]
    have "lossy_indices (map snd (SortEncodingOrder ext order)) (frames (st\<lparr>frames := fs\<rparr>))"
      by (auto simp: lossy_indices_def)
    from extra_loop_steps [OF el this] have "list_all2 (top_up_step ext) fs (frames st2)"
      by simp
    from top_up_steps_trans [OF s0 this] st1 show ?thesis by simp
  qed
qed

lemma top_up_steps_psnr:
  assumes "list_all2 (top_up_step ext) fs fs1"
    and "list_all (\<lambda>f. codec_contract ext f \<and> final_psnr_measured ext f) fs"
  shows "list_all2 (\<lambda>f f1. final_psnr f \<le> final_psnr f1) fs fs1"
  unfolding list_all2_conv_all_nth
proof (intro conjI allI impI)
  from assms(1) show "length fs = length fs1" by (rule list_all2_lengthD)
  fix i assume i: "i < length fs"
  with assms(1) have s: "top_up_step ext (fs ! i) (fs1 ! i)"
    by (simp add: list_all2_conv_all_nth)
  from assms(2) i have c: "codec_contract ext (fs ! i)"
    and m: "final_psnr_measured ext (fs ! i)"
    by (simp_all add: list_all_length)
  from s consider "final_psnr (fs1 ! i) = final_psnr (fs ! i)"
    | q where "\<not> near_lossless (fs ! i)" "final_quality (fs ! i) \<le> q" "q \<le> 100"
        "final_psnr (fs1 ! i) = psnr_at ext (fs ! i) q"
    by (auto simp: top_up_step_def)
  then show "final_psnr (fs ! i) \<le> final_psnr (fs1 ! i)"
  proof cases
    case 1
    then show ?thesis by simp
  next
    case 2
    with m have q0: "0 \<le> final_quality (fs ! i)"
      and p: "final_psnr (fs ! i) = psnr_at ext (fs ! i) (final_quality (fs ! i))"
      by (simp_all add: final_psnr_measured_def)
    from c q0 2(2,3)
    have "psnr_at ext (fs ! i) (final_quality (fs ! i)) \<le> psnr_at ext (fs ! i) q"
      by (simp add: codec_contract_def)
    with p 2(4) show ?thesis by simp
  qed
qed

lemma set_insert_by_slope: "set (insert_by_slope x ys) = insert x (set ys)"
  by (induction ys) auto

lemma set_foldr_insert_by_slope: "set (foldr insert_by_slope xs []) = set xs"
  by (induction xs) (simp_all add: set_insert_by_slope)

text \<open>
  C2, as the code has it: \<^verbatim>\<open>final_quality\<close> is only ever raised by the global binary search
  of \<^verbatim>\<open>LossyEncodeSlopeOptim\<close> (from any round on, every frame being below the lower bound of
  the search, as holds when the pass starts with every \<^verbatim>\<open>final_quality\<close> below
  \<^verbatim>\<open>minimum_lossy_quality\<close>), by the search of \<^verbatim>\<open>LossyEncodeNoSlopeOptim\<close> in a frame whose
  \<^verbatim>\<open>final_quality\<close> is not above the lower bound of the search, that is, in every frame whose
  config is not lossless when the pass starts, and by \<^verbatim>\<open>ExtraLossyEncode\<close>. A frame whose
  config is lossless restarts from quality 70 in \<^verbatim>\<open>LossyEncodeNoSlopeOptim\<close>, whatever its
  \<^verbatim>\<open>final_quality\<close> is. \<^verbatim>\<open>LossyEncodeNoSlopeOptim\<close> never lowers the \<^verbatim>\<open>final_psnr\<close> of a
  frame; nor does \<^verbatim>\<open>ExtraLossyEncode\<close> under the codec contract, when the \<^verbatim>\<open>final_psnr\<close> of every
  frame that is not near-lossless is the PSNR at its \<^verbatim>\<open>final_quality\<close> as the pass starts and
  the sort of the encoding order returns no entry that it was not given.
\<close>

theorem final_quality_raised:
  "(slope_optim_loop ext limit_slope min_quality max_quality optim_list st webp_data
      = (r, st1, webp_data1)
    \<and> list_all (\<lambda>f. final_quality f < min_quality) (frames st)
    \<longrightarrow> list_all2 (\<lambda>f f1. final_quality f \<le> final_quality f1) (frames st) (frames st1))
   \<and> (LossyEncodeSlopeOptim ext st_s webp_data_s = (r_s, st_s1, webp_data_s1)
      \<and> list_all (\<lambda>f. final_quality f < minimum_lossy_quality st_s)
            (SortFrames ext (frames st_s))
      \<longrightarrow> list_all2 (\<lambda>f f1. final_quality f \<le> final_quality f1)
            (SortFrames ext (frames st_s)) (frames st_s1))
   \<and> (noslope_search ext budget n lo hi anim_size frame = (r_f, anim_size1, frame1)
      \<and> final_quality frame \<le> lo
      \<longrightarrow> final_quality frame \<le> final_quality frame1
          \<and> final_psnr frame \<le> final_psnr frame1)
   \<and> (LossyEncodeNoSlopeOptim ext st_n webp_data_n = (r_n, st_n1, webp_data_n1)
      \<longrightarrow> list_all2 (\<lambda>f f1. (lossless (config f) \<or> final_quality f \<le> final_quality f1)
                            \<and> final_psnr f \<le> final_psnr f1)
            (frames st_n) (frames st_n1))
   \<and> (ExtraLossyEncode ext st_e webp_data_e = (r_e, st_e1, webp_data_e1)
      \<longrightarrow> list_all2 (\<lambda>f f1. final_quality f \<le> final_quality f1) (frames st_e) (frames st_e1)
          \<and> ((\<forall>xs. set (SortEncodingOrder ext xs) \<subseteq> set xs)
              \<and> list_all (\<lambda>f. codec_contract ext f \<and> final_psnr_measured ext f) (frames st_e)
              \<longrightarrow> list_all2 (\<lambda>f f1. final_psnr f \<le> final_psnr f1)
                    (frames st_e) (frames st_e1)))"
proof (intro conjI impI; (elim conjE)?)
  assume "slope_optim_loop ext limit_slope min_quality max_quality optim_list st webp_data
      = (r, st1, webp_data1)"
    and "list_all (\<lambda>f. final_quality f < min_quality) (frames st)"
  from slope_optim_loop_range [OF this] this(2)
  show "list_all2 (\<lambda>f f1. final_quality f \<le> final_quality f1) (frames st) (frames st1)"
    by (rule raised_from_range)
next
  assume "LossyEncodeSlopeOptim ext st_s webp_data_s = (r_s, st_s1, webp_data_s1)"
    and "list_all (\<lambda>f. final_quality f < minimum_lossy_quality st_s)
            (SortFrames ext (frames st_s))"
  from LossyEncodeSlopeOptim_range [OF this] this(2)
  show "list_all2 (\<lambda>f f1. final_quality f \<le> final_quality f1)
            (SortFrames ext (frames st_s)) (frames st_s1)"
    by (rule raised_from_range)
next
  assume s: "noslope_search ext budget n lo hi anim_size frame = (r_f, anim_size1, frame1)"
    and le: "final_quality frame \<le> lo"
  from noslope_search_result [OF s] le
  show "final_quality frame \<le> final_quality frame1" by auto
  from noslope_search_result [OF s]
  show "final_psnr frame \<le> final_psnr frame1" by simp
next
  assume "LossyEncodeNoSlopeOptim ext st_n webp_data_n = (r_n, st_n1, webp_data_n1)"
  from LossyEncodeNoSlopeOptim_result [OF this]
  show "list_all2 (\<lambda>f f1. (lossless (config f) \<or> final_quality f \<le> final_quality f1)
                            \<and> final_psnr f \<le> final_psnr f1)
            (frames st_n) (frames st_n1)"
    by (auto elim!: list_all2_mono simp: noslope_min_quality_def split: if_splits)
next
  assume "ExtraLossyEncode ext st_e webp_data_e = (r_e, st_e1, webp_data_e1)"
  from ExtraLossyEncode_result [OF this]
  show "list_all2 (\<lambda>f f1. final_quality f \<le> final_quality f1) (frames st_e) (frames st_e1)"
    by (simp add: list_all2_map1 list_all2_map2)
next
  assume e: "ExtraLossyEncode ext st_e webp_data_e = (r_e, st_e1, webp_data_e1)"
    and sort_ok: "\<forall>xs. set (SortEncodingOrder ext xs) \<subseteq> set xs"
    and measured: "list_all (\<lambda>f. codec_contract ext f \<and> final_psnr_measured ext f)
                     (frames st_e)"
  from sort_ok have "set (SortEncodingOrder ext xs) \<subseteq> set xs" for xs by simp
  from ExtraLossyEncode_steps [OF e this] measured
  show "list_all2 (\<lambda>f f1. final_psnr f \<le> final_psnr f1) (frames st_e) (frames st_e1)"
    by (rule top_up_steps_psnr)
qed

theorem final_quality_raised_example:
  "map final_quality (frames (example_state [fresh_frame] 1000)) = [-1]
   \<and> map final_quality
        (frames (fst (snd (slope_optim_loop linear_ext (Fin 1) 0 100 [0]
                             (example_state [fresh_frame] 1000) WebPDataInit)))) = [50]
   \<and> list_all2 (\<lambda>f f1. final_quality f \<le> final_quality f1)
        (frames (example_state [fresh_frame] 1000))
        (frames (fst (snd (slope_optim_loop linear_ext (Fin 1) 0 100 [0]
                             (example_state [fresh_frame] 1000) WebPDataInit))))
   \<and> map final_quality
        (frames (fst (snd (LossyEncodeSlopeOptim plateau_ext plateau_state WebPDataInit))))
       = [75]
   \<and> list_all2 (\<lambda>f f1. final_quality f \<le> final_quality f1)
        (SortFrames plateau_ext (frames plateau_state))
        (frames (fst (snd (LossyEncodeSlopeOptim plateau_ext plateau_state WebPDataInit))))
   \<and> final_quality (example_frame False 50 150 50) \<le> 50
   \<and> final_quality (snd (snd (noslope_search revert_ext 210 1 50 80 200
                                  (example_frame False 50 150 50)))) = 60
   \<and> final_psnr (example_frame False 50 150 50)
       \<le> final_psnr (snd (snd (noslope_search revert_ext 210 1 50 80 200
                                   (example_frame False 50 150 50))))
   \<and> map final_quality
        (frames (fst (snd (LossyEncodeNoSlopeOptim revert_ext revert_state
                             (example_data 200))))) = [60]
   \<and> list_all2 (\<lambda>f f1. (lossless (config f) \<or> final_quality f \<le> final_quality f1)
                         \<and> final_psnr f \<le> final_psnr f1)
        (frames revert_state)
        (frames (fst (snd (LossyEncodeNoSlopeOptim revert_ext revert_state
                             (example_data 200)))))
   \<and> map final_quality
        (frames (fst (snd (ExtraLossyEncode linear_ext raise_state (example_data 150)))))
       = [70]
   \<and> list_all2 (\<lambda>f f1. final_quality f \<le> final_quality f1) (frames raise_state)
        (frames (fst (snd (ExtraLossyEncode linear_ext raise_state (example_data 150)))))
   \<and> map final_psnr (frames raise_state) = [50]
   \<and> map final_psnr
        (frames (fst (snd (ExtraLossyEncode linear_ext raise_state (example_data 150)))))
       = [70]
   \<and> list_all2 (\<lambda>f f1. final_psnr f \<le> final_psnr f1) (frames raise_state)
        (frames (fst (snd (ExtraLossyEncode linear_ext raise_state (example_data 150)))))"
proof -
  let ?S = "example_state [fresh_frame] 1000"
  let ?L = "slope_optim_loop linear_ext (Fin 1) 0 100 [0] ?S WebPDataInit"
  let ?P = "LossyEncodeSlopeOptim plateau_ext plateau_state WebPDataInit"
  let ?F = "noslope_search revert_ext 210 1 50 80 200 (example_frame False 50 150 50)"
  let ?N = "LossyEncodeNoSlopeOptim revert_ext revert_state (example_data 200)"
  let ?E = "ExtraLossyEncode linear_ext raise_state (example_data 150)"
  have q0: "map final_quality (frames ?S) = [-1]" by code_simp
  have qL: "map final_quality (frames (fst (snd ?L))) = [50]" by code_simp
  have qP: "map final_quality (frames (fst (snd ?P))) = [75]" by code_simp
  have qF: "final_quality (snd (snd ?F)) = 60" by code_simp
  have qN: "map final_quality (frames (fst (snd ?N))) = [60]" by code_simp
  have qE: "map final_quality (frames (fst (snd ?E))) = [70]" by code_simp
  have hL: "?L = (fst ?L, fst (snd ?L), snd (snd ?L))
      \<and> list_all (\<lambda>f. final_quality f < 0) (frames ?S)"
    by (simp add: example_state_def fresh_frame_def example_frame_def)
  have hP: "?P = (fst ?P, fst (snd ?P), snd (snd ?P))
      \<and> list_all (\<lambda>f. final_quality f < minimum_lossy_quality plateau_state)
           (SortFrames plateau_ext (frames plateau_state))"
    by (simp add: plateau_state_def plateau_ext_def example_ext_def example_state_def
        fresh_frame_def example_frame_def)
  have hF: "?F = (fst ?F, fst (snd ?F), snd (snd ?F))
      \<and> final_quality (example_frame False 50 150 50) \<le> 50"
    by (simp add: example_frame_def)
  have hN: "?N = (fst ?N, fst (snd ?N), snd (snd ?N))" by simp
  have hE: "?E = (fst ?E, fst (snd ?E), snd (snd ?E))" by simp
  have p0: "map final_psnr (frames raise_state) = [50]" by code_simp
  have pE: "map final_psnr (frames (fst (snd ?E))) = [70]" by code_simp
  have stats: "stats_at linear_ext (example_frame ll fq sz ps) q = Some (linear_stats q)"
    for ll fq sz ps q
    by (simp add: stats_at_def linear_ext_def example_ext_def example_frame_def)
  have contract: "codec_contract linear_ext (example_frame False 50 150 50)"
    by (simp add: codec_contract_def psnr_at_def stats linear_stats_def)
  have measured: "final_psnr_measured linear_ext (example_frame False 50 150 50)"
    by (simp add: final_psnr_measured_def psnr_at_def stats linear_stats_def)
       (simp add: example_frame_def)
  have hM: "(\<forall>xs. set (SortEncodingOrder linear_ext xs) \<subseteq> set xs)
      \<and> list_all (\<lambda>f. codec_contract linear_ext f \<and> final_psnr_measured linear_ext f)
          (frames raise_state)"
    using contract measured
    by (simp add: linear_ext_def example_ext_def set_foldr_insert_by_slope raise_state_def
        example_state_def)
  note T = final_quality_raised [where ext = linear_ext, THEN conjunct1, rule_format, OF hL]
    final_quality_raised [where ext = plateau_ext, THEN conjunct2, THEN conjunct1,
      rule_format, OF hP]
    final_quality_raised [where ext = revert_ext, THEN conjunct2, THEN conjunct2,
      THEN conjunct1, rule_format, OF hF]
    final_quality_raised [where ext = revert_ext, THEN conjunct2, THEN conjunct2,
      THEN conjunct2, THEN conjunct1, rule_format, OF hN]
    final_quality_raised [where ext = linear_ext, THEN conjunct2, THEN conjunct2,
      THEN conjunct2, THEN conjunct2, rule_format, OF hE, THEN conjunct1]
    final_quality_raised [where ext = linear_ext, THEN conjunct2, THEN conjunct2,
      THEN conjunct2, THEN conjunct2, rule_format, OF hE, THEN conjunct2, rule_format, OF hM]
  from T q0 qL qP qF qN qE hF p0 pE show ?thesis by simp
qed

text \<open>
  A frame whose \<^verbatim>\<open>final_quality\<close> a later pass lowers: \<^verbatim>\<open>LossyEncodeSlopeOptim\<close> sets it to
  75; \<^verbatim>\<open>NearLosslessEqual\<close> switches the frame to a near-lossless encoding of 72.5 dB;
  \<^verbatim>\<open>LossyEncodeNoSlopeOptim\<close> then searches from 70 and ends at 73, the PSNR of the codec
  being the same from 73 to 76.
\<close>

theorem noslope_lowers_final_quality:
  "map final_quality
     (frames (fst (snd (LossyEncodeSlopeOptim plateau_ext plateau_state WebPDataInit)))) = [75]
   \<and> (case LossyEncodeSlopeOptim plateau_ext plateau_state WebPDataInit of
        (r1, st1, wd1) \<Rightarrow>
          (case NearLosslessEqual plateau_ext st1 wd1 of
             (r2, st2, wd2) \<Rightarrow>
               (case LossyEncodeNoSlopeOptim plateau_ext st2 wd2 of
                  (r3, st3, wd3) \<Rightarrow>
                    (r1, r2, r3, map final_quality (frames st3), map final_psnr (frames st2),
                     map final_psnr (frames st3)))))
      = (ok, ok, ok, [73], [72.5], [73])"
  by code_simp

end
